theory Spec2Isabelle
  imports Complex_Main "HOL-Library.Log_Nat"
begin

section \<open>TrendPulse: the trend-analysis pipeline of main.py\<close>

text \<open>
  The development follows \<^verbatim>\<open>src/main.py\<close> function by function.

  Conventions of the embedding.
  \<^item> A Python \<^verbatim>\<open>str\<close> is a \<^typ>\<open>string\<close>. \<^verbatim>\<open>strip\<close>, \<^verbatim>\<open>lower\<close> and \<^verbatim>\<open>repr\<close> are modelled on
    the ASCII range (the white space, the letters A-Z and the control characters of ASCII);
    other characters are left as they are.
  \<^item> A Python \<^verbatim>\<open>int\<close> is an \<^typ>\<open>int\<close>. A finite Python \<^verbatim>\<open>float\<close> (an IEEE 754 binary64
    number) is the \<^typ>\<open>real\<close> number it denotes. Comparisons of floats are exact; every
    operation that produces a float (\<^verbatim>\<open>*\<close>, \<^verbatim>\<open>+\<close>, the division of two ints, the reading of a
    decimal literal) rounds its exact result to the nearest double, a tie going to the even
    one. The slope is the only float of the program that reaches the classifier, and it is
    finite; no NaN arises.
  \<^item> An exception is a value: a function that can raise returns \<open>exn + 'a\<close>.
  \<^item> The module globals \<^verbatim>\<open>cache\<close> and \<^verbatim>\<open>pytrend\<close> are fields of the record \<open>world\<close>,
    which also keeps the trace of the calls made to \<^verbatim>\<open>time.sleep\<close> and to the provider.
    The provider (the \<^verbatim>\<open>pytrends\<close> library and the network behind it) is a parameter:
    its answer to a call may depend on everything that happened before.
\<close>

subsection \<open>Strings\<close>





fun startswith :: "string \<Rightarrow> string \<Rightarrow> bool" where
  "startswith s [] = True"
| "startswith [] (p # ps) = False"
| "startswith (c # cs) (p # ps) = (c = p \<and> startswith cs ps)"

text \<open>\<^verbatim>\<open>sub in s\<close> on strings: \<open>sub\<close> occurs in \<open>s\<close> as a contiguous substring.\<close>

fun contains :: "string \<Rightarrow> string \<Rightarrow> bool" where
  "contains [] sub = (sub = [])"
| "contains (c # cs) sub = (startswith (c # cs) sub \<or> contains cs sub)"

subsection \<open>Floating point\<close>

text \<open>Rounding to the nearest integer, a tie going to the even one.\<close>

definition round_half_even :: "real \<Rightarrow> int" where
  "round_half_even x =
     (let f = \<lfloor>x\<rfloor>; d = x - of_int f in
      if d < 1 / 2 then f
      else if d > 1 / 2 then f + 1
      else if even f then f else f + 1)"

text \<open>
  The exponent of a positive \<open>x\<close>: the \<open>e\<close> with \<open>2\<^sup>e \<le> x < 2\<^sup>e\<^sup>+\<^sup>1\<close>, and -1022, the least
  exponent of the format, when \<open>x\<close> is below \<open>2\<^sup>-\<^sup>1\<^sup>0\<^sup>2\<^sup>2\<close>. \<open>doublings n x\<close> counts how often a
  number below 1 is doubled until it reaches 1, up to \<open>n\<close> times.
\<close>

fun doublings :: "nat \<Rightarrow> real \<Rightarrow> nat" where
  "doublings 0 x = 0"
| "doublings (Suc n) x = (if 1 \<le> x then 0 else Suc (doublings n (2 * x)))"

definition exponent :: "real \<Rightarrow> int" where
  "exponent x = (if 1 \<le> x then bitlen \<lfloor>x\<rfloor> - 1 else - int (doublings 1022 x))"

text \<open>
  The nearest number with 53 significant bits at the exponent of \<open>x\<close>: a multiple of
  \<open>2\<^sup>e\<^sup>-\<^sup>5\<^sup>2\<close>. It is the double nearest to \<open>x\<close> as long as its magnitude is below \<open>2\<^sup>1\<^sup>0\<^sup>2\<^sup>4\<close>.
\<close>

definition nearest_double :: "real \<Rightarrow> real" where
  "nearest_double x =
     (let u = 2 powi (exponent \<bar>x\<bar> - 52) in of_int (round_half_even (x / u)) * u)"

text \<open>
  The result of \<^verbatim>\<open>*\<close> and \<^verbatim>\<open>+\<close> on floats, from the exact result \<open>x\<close>: the nearest double,
  and an infinity when that overflows. The infinities are written \<open>2\<^sup>1\<^sup>0\<^sup>2\<^sup>4\<close> and
  \<open>- 2\<^sup>1\<^sup>0\<^sup>2\<^sup>4\<close>: they lie beyond every double, as an infinity does in a comparison, and
  adding a double to one of them gives it back.
\<close>

definition float_infinity :: real where
  "float_infinity = 2 ^ 1024"

definition float_of :: "real \<Rightarrow> real" where
  "float_of x =
     (let y = nearest_double x in
      if float_infinity \<le> y then float_infinity
      else if y \<le> - float_infinity then - float_infinity
      else y)"

subsection \<open>Exceptions\<close>

text \<open>
  \<open>HTTPException status detail\<close> is FastAPI's exception; \<open>Exception msg\<close> is any other
  exception \<open>e\<close>, with \<open>msg\<close> the text \<^verbatim>\<open>str(e)\<close>.
\<close>

datatype exn = HTTPException int string | Exception string

text \<open>
  \<^verbatim>\<open>a / b\<close> on two ints: the double nearest to the exact quotient; \<^verbatim>\<open>OverflowError\<close> when
  that double would not be finite.
\<close>

definition int_true_divide :: "int \<Rightarrow> int \<Rightarrow> exn + real" where
  "int_true_divide a b =
     (if b = 0 then Inl (Exception ''division by zero'')
      else
        let q = nearest_double (of_int a / of_int b) in
        if float_infinity \<le> \<bar>q\<bar> then
          Inl (Exception ''integer division result too large for a float'')
        else Inr q)"

subsection \<open>The provider's table (a pandas DataFrame)\<close>

text \<open>
  A table has a number of rows and a list of labelled columns, each holding one cell for
  every row; two columns may carry the same label. \<open>FloatCell x\<close> is the finite double \<open>x\<close>.
\<close>

datatype cell = IntCell int | FloatCell real | BoolCell bool | NaNCell | InfCell

record dataframe =
  nrows :: nat
  columns :: "(string \<times> cell list) list"

definition well_formed :: "dataframe \<Rightarrow> bool" where
  "well_formed d = list_all (\<lambda>(c, vs). length vs = nrows d) (columns d)"

text \<open>\<^verbatim>\<open>data.empty\<close>: one of the two axes has length 0.\<close>

definition df_empty :: "dataframe \<Rightarrow> bool" where
  "df_empty d = (nrows d = 0 \<or> columns d = [])"

definition drop_column :: "string \<Rightarrow> dataframe \<Rightarrow> dataframe" where
  "drop_column name d = d\<lparr>columns := filter (\<lambda>(c, vs). c \<noteq> name) (columns d)\<rparr>"

text \<open>
  \<^verbatim>\<open>repr\<close> of a \<^verbatim>\<open>str\<close>: the text between single quotes, or between double quotes when it
  holds a single quote and no double quote; the quote in use and the backslash are
  escaped, and so are the control characters of ASCII.
\<close>

definition hex_digit :: "nat \<Rightarrow> char" where
  "hex_digit n = (if n < 10 then char_of (48 + n) else char_of (87 + n))"

definition escape_char :: "char \<Rightarrow> char \<Rightarrow> string" where
  "escape_char q c =
     (let n = (of_char c :: nat) in
      if c = q \<or> c = CHR 0x5C then [CHR 0x5C, c]
      else if n = 9 then [CHR 0x5C, CHR ''t'']
      else if n = 10 then [CHR 0x5C, CHR ''n'']
      else if n = 13 then [CHR 0x5C, CHR ''r'']
      else if n < 32 \<or> n = 127 then
        [CHR 0x5C, CHR ''x'', hex_digit (n div 16), hex_digit (n mod 16)]
      else [c])"

definition py_repr :: "string \<Rightarrow> string" where
  "py_repr s =
     (let q = (if CHR 0x27 \<in> set s \<and> CHR 0x22 \<notin> set s then CHR 0x22 else CHR 0x27)
      in [q] @ concat (map (escape_char q) s) @ [q])"

definition quoted :: "string \<Rightarrow> string" where
  "quoted s = [CHR 0x27] @ s @ [CHR 0x27]"

text \<open>
  \<^verbatim>\<open>data[keyword].tolist()\<close>: a label that is no column raises \<^verbatim>\<open>KeyError\<close>, whose
  text is the \<^verbatim>\<open>repr\<close> of the label. For a label that several columns carry,
  \<^verbatim>\<open>data[keyword]\<close> is a table again, which has no \<^verbatim>\<open>tolist\<close>: \<^verbatim>\<open>AttributeError\<close>.
\<close>

definition column_tolist :: "dataframe \<Rightarrow> string \<Rightarrow> exn + cell list" where
  "column_tolist d keyword =
     (case filter (\<lambda>(c, vs). c = keyword) (columns d) of
        [] \<Rightarrow> Inl (Exception (py_repr keyword))
      | [(c, vs)] \<Rightarrow> Inr vs
      | _ \<Rightarrow> Inl (Exception
               (quoted ''DataFrame'' @ '' object has no attribute '' @ quoted ''tolist'')))"

text \<open>\<^verbatim>\<open>int(v)\<close>: a float is truncated towards zero; NaN and the infinities raise.\<close>

definition trunc :: "real \<Rightarrow> int" where
  "trunc x = (if 0 \<le> x then \<lfloor>x\<rfloor> else \<lceil>x\<rceil>)"

fun py_int :: "cell \<Rightarrow> exn + int" where
  "py_int (IntCell i) = Inr i"
| "py_int (FloatCell x) = Inr (trunc x)"
| "py_int (BoolCell b) = Inr (if b then 1 else 0)"
| "py_int NaNCell = Inl (Exception ''cannot convert float NaN to integer'')"
| "py_int InfCell = Inl (Exception ''cannot convert float infinity to integer'')"

text \<open>The comprehension \<^verbatim>\<open>[int(v) for v in last_7]\<close>: the first value that cannot be
  converted raises.\<close>

fun int_each :: "cell list \<Rightarrow> exn + int list" where
  "int_each [] = Inr []"
| "int_each (v # vs) =
     (case py_int v of
        Inl e \<Rightarrow> Inl e
      | Inr i \<Rightarrow> (case int_each vs of Inl e \<Rightarrow> Inl e | Inr is \<Rightarrow> Inr (i # is)))"

text \<open>The slices \<^verbatim>\<open>xs[k:]\<close> and \<^verbatim>\<open>xs[:k]\<close>; a negative \<open>k\<close> counts from the end.\<close>

definition slice_from :: "int \<Rightarrow> 'a list \<Rightarrow> 'a list" where
  "slice_from k xs =
     (if k < 0 then drop (nat (int (length xs) + k)) xs else drop (nat k) xs)"


definition clean_data :: "dataframe option \<Rightarrow> string \<Rightarrow> exn + int list" where
  "clean_data data keyword =
     (case data of
        None \<Rightarrow> Inr []
      | Some d \<Rightarrow>
          if df_empty d then Inr []
          else
            let d1 = (if ''isPartial'' \<in> set (map fst (columns d))
                      then drop_column ''isPartial'' d else d)
            in case column_tolist d1 keyword of
                 Inl e \<Rightarrow> Inl e
               | Inr vals \<Rightarrow>
                   let last_7 = (if length vals \<ge> 7 then slice_from (- 7) vals else vals)
                   in int_each last_7)"

subsection \<open>The classifier\<close>

definition calculate_slope :: "int list \<Rightarrow> exn + real" where
  "calculate_slope data_points =
     (let n = length data_points in
      if n < 2 then Inr 0
      else
        let x = map int [0..<n];
            y = data_points;
            sum_x = sum_list x;
            sum_y = sum_list y;
            sum_xy = sum_list (map (\<lambda>i. x ! i * y ! i) [0..<n]);
            sum_x_squared = sum_list (map (\<lambda>xi. xi ^ 2) x);
            denominator = int n * sum_x_squared - sum_x ^ 2
        in if denominator = 0 then Inr 0
           else int_true_divide (int n * sum_xy - sum_x * sum_y) denominator)"

text \<open>The literals \<^verbatim>\<open>0.8\<close>, \<^verbatim>\<open>1.2\<close> and \<^verbatim>\<open>0.6\<close> are the doubles nearest to these numbers.\<close>

definition classify_trend :: "real \<Rightarrow> string" where
  "classify_trend slope =
     (if slope > nearest_double 0.8 then ''Rising''
      else if slope < - nearest_double 0.8 then ''Declining''
      else ''Stable'')"

text \<open>\<^verbatim>\<open>round(x)\<close> with one argument: the nearest integer, a tie goes to the even one.\<close>

definition py_round :: "real \<Rightarrow> int" where
  "py_round x = round_half_even x"

text \<open>\<^verbatim>\<open>slope * 12 + 50\<close> is a float product followed by a float sum.\<close>

definition calculate_score :: "real \<Rightarrow> int" where
  "calculate_score slope =
     (let score = float_of (float_of (slope * 12) + 50);
          score = max 0 (min 100 score)
      in py_round score)"

definition determine_confidence :: "real \<Rightarrow> string" where
  "determine_confidence slope =
     (let abs_slope = \<bar>slope\<bar> in
      if abs_slope > nearest_double 1.2 then ''High''
      else if abs_slope > nearest_double 0.6 then ''Medium''
      else ''Low'')"



subsection \<open>The world: cache, provider client, and what has happened so far\<close>

datatype event = Sleep int | Query string | NewClient | Suggest string

datatype 'a reply = Returned 'a | Raised string

text \<open>A suggestion is a dictionary; only its key \<^verbatim>\<open>title\<close> is read.\<close>

type_synonym suggestion = "(string \<times> string) list"

text \<open>
  The provider answers a call from the trace up to and including that call. One attempt of
  \<^verbatim>\<open>fetch_trends_data\<close> (\<^verbatim>\<open>build_payload\<close>, then \<^verbatim>\<open>interest_over_time\<close>) is one
  \<open>Query\<close>: it returns a table or raises. Constructing a client (\<^verbatim>\<open>get_pytrend\<close>) and
  \<^verbatim>\<open>time.sleep\<close> do not raise.
\<close>

record provider =
  interest_over_time :: "event list \<Rightarrow> dataframe reply"
  suggestions :: "event list \<Rightarrow> suggestion list reply"

text \<open>The dictionary that \<^verbatim>\<open>analyze\<close> returns and caches; field \<open>resp_k\<close> is its key \<open>k\<close>.\<close>

record response =
  resp_trend :: string
  resp_score :: int
  resp_confidence :: string
  resp_related_keywords :: "string list"
  resp_best_posting_time :: string
  resp_graph_data :: "int list"

record world =
  cache :: "string \<rightharpoonup> response"
  pytrend :: nat
  trace :: "event list"

definition emit :: "event \<Rightarrow> world \<Rightarrow> world" where
  "emit e w = w\<lparr>trace := trace w @ [e]\<rparr>"

definition sleep :: "int \<Rightarrow> world \<Rightarrow> world" where
  "sleep secs w = emit (Sleep secs) w"

text \<open>\<^verbatim>\<open>pytrend = get_pytrend()\<close>: the global handle now names a fresh client.\<close>

definition get_pytrend :: "world \<Rightarrow> world" where
  "get_pytrend w = emit NewClient (w\<lparr>pytrend := Suc (pytrend w)\<rparr>)"

subsection \<open>Fetching with retries\<close>

text \<open>The loop \<^verbatim>\<open>for attempt in range(max_retries)\<close>, entered at \<open>attempt\<close>.\<close>

function fetch_loop ::
  "provider \<Rightarrow> string \<Rightarrow> int \<Rightarrow> int \<Rightarrow> world \<Rightarrow> (exn + dataframe option) \<times> world" where
  "fetch_loop P keyword max_retries attempt w =
     (if attempt < max_retries then
        let w1 = sleep 2 w;
            w2 = emit (Query keyword) w1
        in case interest_over_time P (trace w2) of
             Returned data \<Rightarrow> (Inr (Some data), w2)
           | Raised msg \<Rightarrow>
               if contains msg ''429'' \<and> attempt < max_retries - 1 then
                 let wait_time = (attempt + 1) * 10;
                     w3 = sleep wait_time w2;
                     w4 = get_pytrend w3
                 in fetch_loop P keyword max_retries (attempt + 1) w4
               else (Inl (Exception msg), w2)
      else (Inr None, w))"
  by pat_completeness auto
termination
  by (relation "measure (\<lambda>(P, keyword, max_retries, attempt, w). nat (max_retries - attempt))") auto

definition fetch_trends_data ::
  "provider \<Rightarrow> string \<Rightarrow> int \<Rightarrow> world \<Rightarrow> (exn + dataframe option) \<times> world" where
  "fetch_trends_data P keyword max_retries w = fetch_loop P keyword max_retries 0 w"

subsection \<open>Related keywords\<close>



subsection \<open>The endpoint\<close>



section \<open>What the specification says, for comparison\<close>

text \<open>
  The least-squares slope of the points \<open>(i, ys ! i)\<close>, \<open>i < n\<close>, as the specification writes
  it: \<open>(n * Sxy - Sx * Sy) / (n * Sxx - Sx\<^sup>2)\<close>. Numerator and denominator are integers.
\<close>

definition ols_numerator :: "int list \<Rightarrow> int" where
  "ols_numerator ys =
     (let n = length ys in
      int n * (\<Sum>i<n. int i * ys ! i) - (\<Sum>i<n. int i) * (\<Sum>i<n. ys ! i))"

definition ols_denominator :: "nat \<Rightarrow> int" where
  "ols_denominator n = int n * (\<Sum>i<n. (int i)\<^sup>2) - (\<Sum>i<n. int i)\<^sup>2"

definition least_squares_slope :: "int list \<Rightarrow> real" where
  "least_squares_slope ys = of_int (ols_numerator ys) / of_int (ols_denominator (length ys))"

text \<open>Rounding to the nearest integer with a tie going up, the other reading of "round".\<close>

definition round_half_up :: "real \<Rightarrow> int" where
  "round_half_up x = \<lfloor>x + 1 / 2\<rfloor>"

text \<open>The cells that \<^verbatim>\<open>int\<close> converts, and the integer each of them becomes.\<close>

fun is_number :: "cell \<Rightarrow> bool" where
  "is_number (IntCell i) = True"
| "is_number (FloatCell x) = True"
| "is_number (BoolCell b) = True"
| "is_number NaNCell = False"
| "is_number InfCell = False"

fun as_int :: "cell \<Rightarrow> int" where
  "as_int (IntCell i) = i"
| "as_int (FloatCell x) = trunc x"
| "as_int (BoolCell b) = (if b then 1 else 0)"
| "as_int NaNCell = 0"
| "as_int InfCell = 0"

text \<open>
  What \<open>n\<close> rate-limited attempts leave in the trace, the first of them being attempt
  \<open>a\<close>: the pause, the query, the wait of \<open>(attempt + 1) * 10\<close> and the new client, for each
  attempt in turn. \<open>count_queries\<close> counts the attempts in a trace.
\<close>

fun retry_events :: "string \<Rightarrow> int \<Rightarrow> nat \<Rightarrow> event list" where
  "retry_events kw a 0 = []"
| "retry_events kw a (Suc n) =
     [Sleep 2, Query kw, Sleep ((a + 1) * 10), NewClient] @ retry_events kw (a + 1) n"

fun is_query :: "event \<Rightarrow> bool" where
  "is_query (Query kw) = True"
| "is_query e = False"

definition count_queries :: "event list \<Rightarrow> nat" where
  "count_queries tr = length (filter is_query tr)"



section \<open>Sample inputs\<close>

text \<open>A table of ten rows for the keyword \<^verbatim>\<open>coffee\<close>, with the provider's marker column.\<close>

definition ten_points :: dataframe where
  "ten_points = \<lparr>nrows = 10, columns =
     [(''coffee'', [IntCell 11, IntCell 12, FloatCell 13.75, IntCell 14, IntCell 15,
                    IntCell 16, IntCell 17, IntCell 18, IntCell 19, FloatCell (- 20.5)]),
      (''isPartial'', replicate 9 (BoolCell False) @ [BoolCell True])]\<rparr>"

text \<open>
  A provider that is rate limited on the first two queries and answers the third, and the
  world of a process that has just started.
\<close>

definition rate_limit_text :: string where
  "rate_limit_text = ''The request failed: Google returned a response with code 429''"

definition rising_table :: dataframe where
  "rising_table = \<lparr>nrows = 7, columns =
     [(''coffee'', map IntCell [10, 20, 30, 40, 50, 60, 70]),
      (''isPartial'', replicate 6 (BoolCell False) @ [BoolCell True])]\<rparr>"

definition third_time_lucky :: provider where
  "third_time_lucky = \<lparr>
     interest_over_time = (\<lambda>tr. if count_queries tr \<le> 2 then Raised rate_limit_text
                                 else Returned rising_table),
     suggestions = (\<lambda>tr. Returned [[(''mid'', ''/m/02vqfm''), (''title'', ''Coffee'')]])\<rparr>"

definition fresh_world :: world where
  "fresh_world = \<lparr>cache = Map.empty, pytrend = 0, trace = []\<rparr>"








text \<open>A table with two columns of the same label, and one with two values of opposite sign
  at the top of the range of the doubles.\<close>

definition twice_coffee :: dataframe where
  "twice_coffee = \<lparr>nrows = 2, columns =
     [(''coffee'', [IntCell 1, IntCell 2]), (''coffee'', [IntCell 3, IntCell 4])]\<rparr>"


section \<open>Properties\<close>

subsection \<open>Rounding\<close>

lemma round_half_even_mono: "x \<le> y \<Longrightarrow> round_half_even x \<le> round_half_even y"
proof -
  assume xy: "x \<le> y"
  have fl: "\<lfloor>x\<rfloor> \<le> \<lfloor>y\<rfloor>" using xy by (rule floor_mono)
  show ?thesis
  proof (cases "\<lfloor>x\<rfloor> = \<lfloor>y\<rfloor>")
    case True
    then show ?thesis using xy by (auto simp: round_half_even_def Let_def)
  next
    case False
    then have "\<lfloor>x\<rfloor> + 1 \<le> \<lfloor>y\<rfloor>" using fl by simp
    moreover have "round_half_even x \<le> \<lfloor>x\<rfloor> + 1" by (simp add: round_half_even_def Let_def)
    moreover have "\<lfloor>y\<rfloor> \<le> round_half_even y" by (simp add: round_half_even_def Let_def)
    ultimately show ?thesis by linarith
  qed
qed

lemma round_half_even_of_int: "round_half_even (of_int k) = k"
  by (simp add: round_half_even_def Let_def)

lemma round_half_even_near: "\<bar>of_int (round_half_even x) - x\<bar> \<le> 1 / 2"
  unfolding round_half_even_def Let_def by (auto; linarith)

lemma round_half_even_half: "round_half_even (of_int k + 1 / 2) = (if even k then k else k + 1)"
proof -
  have "\<lfloor>(of_int k :: real) + 1 / 2\<rfloor> = k" by linarith
  then show ?thesis by (simp add: round_half_even_def Let_def)
qed

lemma doublings_le: "doublings n x \<le> n"
  by (induction n arbitrary: x) simp_all

lemma doublings_upper: "x < 2 \<Longrightarrow> x * 2 ^ doublings n x < 2"
proof (induction n arbitrary: x)
  case 0
  then show ?case by simp
next
  case (Suc n)
  show ?case
  proof (cases "1 \<le> x")
    case True
    then show ?thesis using Suc.prems by simp
  next
    case False
    then have "2 * x < 2" by simp
    then have "(2 * x) * 2 ^ doublings n (2 * x) < 2" by (rule Suc.IH)
    then show ?thesis using False by (simp add: mult.assoc mult.left_commute)
  qed
qed

lemma doublings_lower: "doublings n x < n \<Longrightarrow> 1 \<le> x * 2 ^ doublings n x"
proof (induction n arbitrary: x)
  case 0
  then show ?case by simp
next
  case (Suc n)
  show ?case
  proof (cases "1 \<le> x")
    case True
    then show ?thesis by simp
  next
    case False
    then have "doublings n (2 * x) < n" using Suc.prems by simp
    then have "1 \<le> (2 * x) * 2 ^ doublings n (2 * x)" by (rule Suc.IH)
    then show ?thesis using False by (simp add: mult.assoc mult.left_commute)
  qed
qed

lemma powi_neg_nat: "(2::real) powi (- int m) = 1 / 2 ^ m"
  by (simp add: power_int_def inverse_eq_divide power_one_over)

lemma exponent_ge: "- 1022 \<le> exponent x"
proof (cases "1 \<le> x")
  case True
  then have "0 < \<lfloor>x\<rfloor>" by linarith
  then have "1 \<le> bitlen \<lfloor>x\<rfloor>" using bitlen_eq_zero_iff [of "\<lfloor>x\<rfloor>"] bitlen_nonneg [of "\<lfloor>x\<rfloor>"] by linarith
  then show ?thesis using True by (simp add: exponent_def)
next
  case False
  then show ?thesis using doublings_le [of 1022 x] by (simp add: exponent_def)
qed

lemma exponent_upper: "0 < x \<Longrightarrow> x < 2 powi (exponent x + 1)"
proof (cases "1 \<le> x")
  case True
  assume "0 < x"
  have pos: "0 < \<lfloor>x\<rfloor>" using True by linarith
  then have b: "1 \<le> bitlen \<lfloor>x\<rfloor>" using bitlen_eq_zero_iff [of "\<lfloor>x\<rfloor>"] bitlen_nonneg [of "\<lfloor>x\<rfloor>"] by linarith
  have "\<lfloor>x\<rfloor> < 2 ^ nat (bitlen \<lfloor>x\<rfloor>)" using bitlen_bounds [OF pos] by simp
  then have "\<lfloor>x\<rfloor> + 1 \<le> 2 ^ nat (bitlen \<lfloor>x\<rfloor>)" by simp
  then have "(of_int (\<lfloor>x\<rfloor> + 1) :: real) \<le> of_int (2 ^ nat (bitlen \<lfloor>x\<rfloor>))" by (rule of_int_le_iff [THEN iffD2])
  then have "x < 2 ^ nat (bitlen \<lfloor>x\<rfloor>)" by (simp add: less_le_trans [OF floor_correct [THEN conjunct2]]) 
  then show ?thesis using True b by (simp add: exponent_def power_int_def)
next
  case False
  assume "0 < x"
  have "x < 2" using False by simp
  then have "x * 2 ^ doublings 1022 x < 2" by (rule doublings_upper)
  then have "x < 2 / 2 ^ doublings 1022 x" by (simp add: pos_less_divide_eq)
  moreover have "(2::real) powi (- int (doublings 1022 x) + 1) = 2 / 2 ^ doublings 1022 x"
    using power_int_diff [of "2::real" 1 "int (doublings 1022 x)"] by simp
  ultimately show ?thesis using False by (simp add: exponent_def)
qed

lemma exponent_lower: "0 < x \<Longrightarrow> - 1022 < exponent x \<Longrightarrow> 2 powi exponent x \<le> x"
proof (cases "1 \<le> x")
  case True
  have pos: "0 < \<lfloor>x\<rfloor>" using True by linarith
  then have b: "1 \<le> bitlen \<lfloor>x\<rfloor>" using bitlen_eq_zero_iff [of "\<lfloor>x\<rfloor>"] bitlen_nonneg [of "\<lfloor>x\<rfloor>"] by linarith
  have "2 ^ nat (bitlen \<lfloor>x\<rfloor> - 1) \<le> \<lfloor>x\<rfloor>" using bitlen_bounds [OF pos] by simp
  then have "(of_int (2 ^ nat (bitlen \<lfloor>x\<rfloor> - 1)) :: real) \<le> of_int \<lfloor>x\<rfloor>" by (rule of_int_le_iff [THEN iffD2])
  then have "2 ^ nat (bitlen \<lfloor>x\<rfloor> - 1) \<le> x" by (simp add: order_trans [OF _ of_int_floor_le])
  then show ?thesis using True b by (simp add: exponent_def power_int_def)
next
  case False
  assume "- 1022 < exponent x"
  then have "doublings 1022 x < 1022" using False by (simp add: exponent_def)
  then have "1 \<le> x * 2 ^ doublings 1022 x" by (rule doublings_lower)
  then have "1 / 2 ^ doublings 1022 x \<le> x" by (simp add: pos_divide_le_eq)
  then show ?thesis using False by (simp add: exponent_def powi_neg_nat)
qed

lemma exponent_mono: "0 < x \<Longrightarrow> x \<le> y \<Longrightarrow> exponent x \<le> exponent y"
proof (rule ccontr)
  assume x: "0 < x" and xy: "x \<le> y" and n: "\<not> exponent x \<le> exponent y"
  have "- 1022 < exponent x" using n exponent_ge [of y] by linarith
  then have "2 powi exponent x \<le> x" using x by (intro exponent_lower)
  moreover have "y < 2 powi (exponent y + 1)" using x xy by (intro exponent_upper) simp
  moreover have "(2::real) powi (exponent y + 1) \<le> 2 powi exponent x"
    using n by (intro power_int_increasing) simp_all
  ultimately show False using xy by linarith
qed

lemma exponent_unique:
  assumes "2 powi e \<le> x" and "x < 2 powi (e + 1)" and "- 1022 \<le> e"
  shows "exponent x = e"
proof -
  have x: "0 < x" using assms(1) zero_less_power_int [of "2::real" e] by linarith
  have up: "x < 2 powi (exponent x + 1)" using x by (rule exponent_upper)
  have "e \<le> exponent x"
  proof (rule ccontr)
    assume "\<not> e \<le> exponent x"
    then have "(2::real) powi (exponent x + 1) \<le> 2 powi e"
      by (intro power_int_increasing) simp_all
    then show False using up assms(1) by linarith
  qed
  moreover have "exponent x \<le> e"
  proof (rule ccontr)
    assume n: "\<not> exponent x \<le> e"
    then have "- 1022 < exponent x" using assms(3) by linarith
    then have "2 powi exponent x \<le> x" using x by (intro exponent_lower)
    moreover have "(2::real) powi (e + 1) \<le> 2 powi exponent x"
      using n by (intro power_int_increasing) simp_all
    ultimately show False using assms(2) by linarith
  qed
  ultimately show ?thesis by simp
qed

lemma exponent_subnormal: "x < 2 powi (- 1022) \<Longrightarrow> exponent x = - 1022"
proof (rule ccontr)
  assume s: "x < 2 powi (- 1022)" and n: "exponent x \<noteq> - 1022"
  then have e: "- 1022 < exponent x" using exponent_ge [of x] by linarith
  show False
  proof (cases "0 < x")
    case True
    then have "2 powi exponent x \<le> x" using e by (intro exponent_lower)
    moreover have "(2::real) powi (- 1022) \<le> 2 powi exponent x"
      using e by (intro power_int_increasing) simp_all
    ultimately show False using s by linarith
  next
    case False
    then have "\<not> 1 \<le> x" by simp
    moreover have "doublings n x = n" for n
      using False by (induction n arbitrary: x) (simp_all add: mult_le_0_iff not_less)
    ultimately show False using n by (simp add: exponent_def)
  qed
qed

lemma ulp_pos: "0 < (2::real) powi k"
  by (simp add: zero_less_power_int)

lemma nearest_double_zero: "nearest_double 0 = 0"
  by (simp add: nearest_double_def Let_def round_half_even_def)

lemma powi_ratio: "(2::real) powi (e + 1) / 2 powi (e - 52) = 2 ^ 53" "(2::real) powi e / 2 powi (e - 52) = 2 ^ 52"
proof -
  have "(2::real) powi (e + 1 - (e - 52)) = 2 powi (e + 1) / 2 powi (e - 52)"
    by (rule power_int_diff) simp
  moreover have "(2::real) powi (e - (e - 52)) = 2 powi e / 2 powi (e - 52)"
    by (rule power_int_diff) simp
  ultimately show "(2::real) powi (e + 1) / 2 powi (e - 52) = 2 ^ 53" "(2::real) powi e / 2 powi (e - 52) = 2 ^ 52"
    by simp_all
qed

lemma scaled: "(2::real) ^ 53 * 2 powi (e - 52) = 2 powi (e + 1)" "(2::real) ^ 52 * 2 powi (e - 52) = 2 powi e"
  using powi_ratio [of e] ulp_pos [of "e - 52"] by (simp_all add: field_simps)

lemma nearest_double_upper:
  assumes "0 \<le> x"
  shows "nearest_double x \<le> 2 powi (exponent x + 1)"
proof (cases "x = 0")
  case True
  then show ?thesis using ulp_pos [of "exponent 0 + 1"] by (simp add: nearest_double_zero less_imp_le)
next
  case False
  then have x: "0 < x" using assms by simp
  let ?e = "exponent x"
  let ?u = "(2::real) powi (?e - 52)"
  have "x / ?u \<le> 2 powi (?e + 1) / ?u"
    using exponent_upper [OF x] ulp_pos [of "?e - 52"] by (intro divide_right_mono) simp_all
  then have "x / ?u \<le> of_int (2 ^ 53)" by (simp add: powi_ratio)
  then have "round_half_even (x / ?u) \<le> round_half_even (of_int (2 ^ 53))"
    by (rule round_half_even_mono)
  then have "round_half_even (x / ?u) \<le> 2 ^ 53" by (simp only: round_half_even_of_int)
  then have "(of_int (round_half_even (x / ?u)) :: real) \<le> of_int (2 ^ 53)"
    by (rule of_int_le_iff [THEN iffD2])
  then have "of_int (round_half_even (x / ?u)) * ?u \<le> (of_int (2 ^ 53) :: real) * ?u"
    by (rule mult_right_mono) (simp add: less_imp_le [OF ulp_pos])
  moreover have "(of_int (2 ^ 53) :: real) * ?u = 2 powi (?e + 1)"
    using scaled(1) [of ?e] by simp
  moreover have "nearest_double x = of_int (round_half_even (x / ?u)) * ?u"
    using x by (simp add: nearest_double_def Let_def)
  ultimately show ?thesis by linarith
qed

lemma nearest_double_lower:
  assumes "0 < x" and "2 powi exponent x \<le> x"
  shows "2 powi exponent x \<le> nearest_double x"
proof -
  let ?e = "exponent x"
  let ?u = "(2::real) powi (?e - 52)"
  have "2 powi ?e / ?u \<le> x / ?u"
    using assms(2) ulp_pos [of "?e - 52"] by (intro divide_right_mono) simp_all
  then have "of_int (2 ^ 52) \<le> x / ?u" by (simp add: powi_ratio)
  then have "round_half_even (of_int (2 ^ 52)) \<le> round_half_even (x / ?u)"
    by (rule round_half_even_mono)
  then have "2 ^ 52 \<le> round_half_even (x / ?u)" by (simp only: round_half_even_of_int)
  then have "(of_int (2 ^ 52) :: real) \<le> of_int (round_half_even (x / ?u))"
    by (rule of_int_le_iff [THEN iffD2])
  then have "(of_int (2 ^ 52) :: real) * ?u \<le> of_int (round_half_even (x / ?u)) * ?u"
    by (rule mult_right_mono) (simp add: less_imp_le [OF ulp_pos])
  moreover have "(of_int (2 ^ 52) :: real) * ?u = 2 powi ?e"
    using scaled(2) [of ?e] by simp
  moreover have "nearest_double x = of_int (round_half_even (x / ?u)) * ?u"
    using assms(1) by (simp add: nearest_double_def Let_def)
  ultimately show ?thesis by linarith
qed

lemma round_half_even_minus: "round_half_even (- x) = - round_half_even x"
proof (cases "x = of_int \<lfloor>x\<rfloor>")
  case True
  then obtain k where "x = of_int k" by blast
  then have "round_half_even x = k" "round_half_even (- x) = - k"
    using round_half_even_of_int [of "- k"] by (simp_all add: round_half_even_of_int)
  then show ?thesis by simp
next
  case False
  let ?f = "\<lfloor>x\<rfloor>"
  have lt: "of_int ?f < x" "x < of_int ?f + 1" using False by linarith+
  have fm: "\<lfloor>- x\<rfloor> = - ?f - 1" using lt by linarith
  have ev: "even (- ?f - 1) \<longleftrightarrow> \<not> even ?f" by simp
  show ?thesis
    unfolding round_half_even_def Let_def fm ev using lt by (auto simp: algebra_simps)
qed

lemma nearest_double_minus: "nearest_double (- x) = - nearest_double x"
  by (simp add: nearest_double_def Let_def round_half_even_minus)

lemma nearest_double_nonneg: "0 \<le> x \<Longrightarrow> 0 \<le> nearest_double x"
proof -
  assume x: "0 \<le> x"
  let ?u = "(2::real) powi (exponent \<bar>x\<bar> - 52)"
  have "0 \<le> x / ?u" using x ulp_pos [of "exponent \<bar>x\<bar> - 52"] by simp
  then have "round_half_even (of_int 0) \<le> round_half_even (x / ?u)"
    by (intro round_half_even_mono) simp
  then have "0 \<le> round_half_even (x / ?u)" by (simp only: round_half_even_of_int)
  then show ?thesis using ulp_pos [of "exponent \<bar>x\<bar> - 52"]
    by (simp add: nearest_double_def Let_def)
qed

lemma nearest_double_mono_pos:
  assumes "0 < x" and "x \<le> y"
  shows "nearest_double x \<le> nearest_double y"
proof (cases "exponent x = exponent y")
  case True
  let ?u = "(2::real) powi (exponent y - 52)"
  have "x / ?u \<le> y / ?u"
    using assms(2) ulp_pos [of "exponent y - 52"] by (intro divide_right_mono) simp_all
  then have "round_half_even (x / ?u) \<le> round_half_even (y / ?u)" by (rule round_half_even_mono)
  then have "(of_int (round_half_even (x / ?u)) :: real) \<le> of_int (round_half_even (y / ?u))"
    by (rule of_int_le_iff [THEN iffD2])
  then have "of_int (round_half_even (x / ?u)) * ?u \<le> of_int (round_half_even (y / ?u)) * ?u"
    by (rule mult_right_mono) (simp add: less_imp_le [OF ulp_pos])
  then show ?thesis using assms True by (simp add: nearest_double_def Let_def)
next
  case False
  have y: "0 < y" using assms by simp
  have lt: "exponent x < exponent y" using False exponent_mono [OF assms] by simp
  then have "- 1022 < exponent y" using exponent_ge [of x] by linarith
  then have "2 powi exponent y \<le> y" using y by (intro exponent_lower)
  then have "2 powi exponent y \<le> nearest_double y" using y by (intro nearest_double_lower)
  moreover have "nearest_double x \<le> 2 powi (exponent x + 1)"
    using assms(1) by (intro nearest_double_upper) simp
  moreover have "(2::real) powi (exponent x + 1) \<le> 2 powi exponent y"
    using lt by (intro power_int_increasing) simp_all
  ultimately show ?thesis by linarith
qed

lemma nearest_double_mono: "x \<le> y \<Longrightarrow> nearest_double x \<le> nearest_double y"
proof -
  assume xy: "x \<le> y"
  consider "0 < x" | "x \<le> 0" "0 \<le> y" | "y < 0" by linarith
  then show ?thesis
  proof cases
    case 1
    then show ?thesis using xy by (rule nearest_double_mono_pos)
  next
    case 2
    have "0 \<le> nearest_double (- x)" using 2 by (intro nearest_double_nonneg) simp
    then have "nearest_double x \<le> 0" by (simp add: nearest_double_minus)
    moreover have "0 \<le> nearest_double y" using 2 by (intro nearest_double_nonneg)
    ultimately show ?thesis by linarith
  next
    case 3
    then have "nearest_double (- y) \<le> nearest_double (- x)"
      using xy by (intro nearest_double_mono_pos) simp_all
    then show ?thesis by (simp add: nearest_double_minus)
  qed
qed

lemma nearest_double_error: "\<bar>nearest_double x - x\<bar> \<le> 2 powi (exponent \<bar>x\<bar> - 53)"
proof -
  let ?u = "(2::real) powi (exponent \<bar>x\<bar> - 52)"
  have u: "0 < ?u" by (rule ulp_pos)
  have "\<bar>of_int (round_half_even (x / ?u)) - x / ?u\<bar> \<le> 1 / 2" by (rule round_half_even_near)
  then have "\<bar>of_int (round_half_even (x / ?u)) - x / ?u\<bar> * ?u \<le> 1 / 2 * ?u"
    by (rule mult_right_mono) (simp add: less_imp_le [OF ulp_pos])
  moreover have "\<bar>of_int (round_half_even (x / ?u)) - x / ?u\<bar> * ?u =
      \<bar>of_int (round_half_even (x / ?u)) * ?u - x\<bar>"
  proof -
    have "(of_int (round_half_even (x / ?u)) - x / ?u) * ?u =
        of_int (round_half_even (x / ?u)) * ?u - x"
      using u by (simp add: left_diff_distrib)
    then have "\<bar>of_int (round_half_even (x / ?u)) * ?u - x\<bar> =
        \<bar>of_int (round_half_even (x / ?u)) - x / ?u\<bar> * \<bar>?u\<bar>"
      by (simp only: abs_mult [symmetric])
    then show ?thesis using u by simp
  qed
  moreover have "1 / 2 * ?u = 2 powi (exponent \<bar>x\<bar> - 53)"
    using power_int_diff [of "2::real" "exponent \<bar>x\<bar> - 52" 1] by simp
  ultimately show ?thesis by (simp add: nearest_double_def Let_def)
qed

lemma nearest_double_exact:
  assumes "x = of_int m * 2 powi k" and "\<bar>m\<bar> < 2 ^ 53" and "- 1074 \<le> k"
  shows "nearest_double x = x"
proof (cases "x = 0")
  case True
  then show ?thesis by (simp add: nearest_double_zero)
next
  case False
  let ?e = "exponent \<bar>x\<bar>"
  have pos: "0 < \<bar>x\<bar>" using False by simp
  have "(of_int \<bar>m\<bar> :: real) < of_int (2 ^ 53)" using assms(2) by (rule of_int_less_iff [THEN iffD2])
  then have "\<bar>x\<bar> < 2 ^ 53 * 2 powi k"
    using ulp_pos [of k] by (simp add: assms(1) abs_mult)
  then have small: "\<bar>x\<bar> < 2 powi (k + 53)"
    using power_int_add [of "2::real" k 53] by (simp add: mult.commute)
  have le: "?e - 52 \<le> k"
  proof (cases "- 1022 < ?e")
    case True
    then have "2 powi ?e \<le> \<bar>x\<bar>" using pos by (intro exponent_lower)
    then have "(2::real) powi ?e < 2 powi (k + 53)" using small by linarith
    then have "?e < k + 53"
      using power_int_increasing [of "k + 53" ?e "2::real"] by (cases "?e < k + 53") auto
    then show ?thesis by simp
  next
    case False
    then show ?thesis using assms(3) exponent_ge [of "\<bar>x\<bar>"] by linarith
  qed
  let ?u = "(2::real) powi (?e - 52)"
  have "(2::real) powi (k - (?e - 52)) = 2 powi k / ?u" by (rule power_int_diff) simp
  moreover have "(2::real) powi (k - (?e - 52)) = 2 ^ nat (k - (?e - 52))"
    using le by (simp add: power_int_def)
  ultimately have r: "2 powi k / ?u = 2 ^ nat (k - (?e - 52))" by simp
  have "x / ?u = of_int m * (2 powi k / ?u)" by (simp only: assms(1) times_divide_eq_right)
  then have q: "x / ?u = of_int (m * 2 ^ nat (k - (?e - 52)))" by (simp only: r of_int_mult of_int_power of_int_numeral)
  then have "round_half_even (x / ?u) = m * 2 ^ nat (k - (?e - 52))"
    by (simp only: round_half_even_of_int)
  moreover have "of_int (m * 2 ^ nat (k - (?e - 52))) * ?u = x"
    using q ulp_pos [of "?e - 52"] by (simp only: q [symmetric]) simp
  ultimately show ?thesis by (simp only: nearest_double_def Let_def)
qed

lemma nearest_double_eq:
  assumes "2 powi e \<le> \<bar>x\<bar>" and "\<bar>x\<bar> < 2 powi (e + 1)" and "- 1022 \<le> e"
  shows "nearest_double x = of_int (round_half_even (x / 2 powi (e - 52))) * 2 powi (e - 52)"
  using exponent_unique [OF assms] by (simp add: nearest_double_def Let_def)

lemma float_of_mono: "x \<le> y \<Longrightarrow> float_of x \<le> float_of y"
proof -
  assume "x \<le> y"
  then have "nearest_double x \<le> nearest_double y" by (rule nearest_double_mono)
  moreover have "- float_infinity \<le> float_infinity" by (simp add: float_infinity_def)
  ultimately show ?thesis by (simp add: float_of_def Let_def)
qed

lemma float_of_finite: "\<bar>nearest_double x\<bar> < float_infinity \<Longrightarrow> float_of x = nearest_double x"
  by (simp add: float_of_def Let_def abs_less_iff not_le)

lemma float_of_exact:
  assumes "x = of_int m * 2 powi k" and "\<bar>m\<bar> < 2 ^ 53" and "- 1074 \<le> k" and "\<bar>x\<bar> < float_infinity"
  shows "float_of x = x"
proof -
  have "nearest_double x = x" using assms(1-3) by (rule nearest_double_exact)
  then show ?thesis using assms(4) float_of_finite [of x] by simp
qed

lemma small_is_finite: "\<bar>x\<bar> < 2 ^ 53 \<Longrightarrow> \<bar>x\<bar> < float_infinity"
proof -
  have "(2::real) ^ 53 \<le> 2 ^ 1024" by (rule power_increasing) simp_all
  then show "\<bar>x\<bar> < 2 ^ 53 \<Longrightarrow> \<bar>x\<bar> < float_infinity"
    unfolding float_infinity_def by linarith
qed

lemma float_of_int: "\<bar>m\<bar> < 2 ^ 53 \<Longrightarrow> float_of (of_int m) = of_int m"
proof -
  assume m: "\<bar>m\<bar> < 2 ^ 53"
  then have "(of_int \<bar>m\<bar> :: real) < of_int (2 ^ 53)" by (rule of_int_less_iff [THEN iffD2])
  then have "\<bar>of_int m :: real\<bar> < 2 ^ 53" by simp
  then have "\<bar>of_int m :: real\<bar> < float_infinity" by (rule small_is_finite)
  then show ?thesis using m by (intro float_of_exact [of _ m 0]) simp_all
qed

lemma float_of_half: "\<bar>m\<bar> < 2 ^ 53 \<Longrightarrow> float_of (of_int m / 2) = of_int m / 2"
proof -
  assume m: "\<bar>m\<bar> < 2 ^ 53"
  then have "(of_int \<bar>m\<bar> :: real) < of_int (2 ^ 53)" by (rule of_int_less_iff [THEN iffD2])
  then have "\<bar>of_int m / 2 :: real\<bar> < 2 ^ 53" by simp
  then have "\<bar>of_int m / 2 :: real\<bar> < float_infinity" by (rule small_is_finite)
  then show ?thesis using m by (intro float_of_exact [of _ m "- 1"]) simp_all
qed

lemma py_round_mono: "x \<le> y \<Longrightarrow> py_round x \<le> py_round y"
  unfolding py_round_def by (rule round_half_even_mono)

lemma py_round_of_int: "py_round (of_int k) = k"
  unfolding py_round_def by (rule round_half_even_of_int)

lemma py_round_near: "\<bar>of_int (py_round x) - x\<bar> \<le> 1 / 2"
  unfolding py_round_def by (rule round_half_even_near)

lemma py_round_half: "py_round (of_int k + 1 / 2) = (if even k then k else k + 1)"
  unfolding py_round_def by (rule round_half_even_half)

subsection \<open>Trend label, score and confidence\<close>

lemma literal_0_8: "nearest_double 0.8 = 3602879701896397 / 4503599627370496"
  by (subst nearest_double_eq [of "- 1"]) (simp_all add: round_half_even_def)

lemma literal_1_2: "nearest_double 1.2 = 5404319552844595 / 4503599627370496"
  by (subst nearest_double_eq [of 0]) (simp_all add: round_half_even_def)

lemma literal_0_6: "nearest_double 0.6 = 5404319552844595 / 9007199254740992"
  by (subst nearest_double_eq [of "- 1"]) (simp_all add: round_half_even_def)

lemma literal_0_8000001: "nearest_double 0.8000001 = 7205760304512719 / 9007199254740992"
  by (subst nearest_double_eq [of "- 1"]) (simp_all add: round_half_even_def)

lemma literal_0_2083:
  "nearest_double 0.20833333333333334 = 7505999378950827 / 36028797018963968"
  by (subst nearest_double_eq [of "- 3"]) (simp_all add: round_half_even_def)

lemmas literals = literal_0_8 literal_1_2 literal_0_6 literal_0_8000001 literal_0_2083

lemma score_from:
  "float_of (s * 12) = a \<Longrightarrow> float_of (a + 50) = b \<Longrightarrow>
   calculate_score s = round_half_even (max 0 (min 100 b))"
  by (simp add: calculate_score_def py_round_def Let_def)

lemma score_of_int:
  assumes "\<bar>k\<bar> < 2 ^ 40"
  shows "calculate_score (of_int k) = round_half_even (max 0 (min 100 (of_int (k * 12 + 50))))"
proof -
  have "\<bar>k * 12\<bar> < 2 ^ 53" "\<bar>k * 12 + 50\<bar> < 2 ^ 53" using assms by simp_all
  then have "float_of (of_int (k * 12)) = of_int (k * 12)"
    "float_of (of_int (k * 12 + 50)) = of_int (k * 12 + 50)"
    by (simp_all only: float_of_int)
  then show ?thesis by (intro score_from) simp_all
qed

lemma score_values:
  "calculate_score 0 = 50" "calculate_score 10 = 100" "calculate_score (- 10) = 0"
  "calculate_score 1 = 62" "calculate_score 2 = 74"
  using score_of_int [of 0] score_of_int [of 10] score_of_int [of "- 10"]
    score_of_int [of 1] score_of_int [of 2]
  by (simp_all add: round_half_even_def)

text \<open>
  C6. For every slope \<open>s\<close>, \<open>classify_trend s\<close> is one of the three labels: Rising exactly
  when \<open>s > 0.8\<close>, Declining exactly when \<open>s < -0.8\<close>, Stable otherwise, where \<open>0.8\<close> is the
  float that the literal denotes. The thresholds are exclusive: the floats \<open>0.8\<close> and \<open>-0.8\<close>
  themselves are Stable, the float \<open>0.8000001\<close> is Rising.
\<close>

theorem classify_trend_thresholds:
  "classify_trend s \<in> {''Rising'', ''Stable'', ''Declining''} \<and>
   (classify_trend s = ''Rising'' \<longleftrightarrow> s > nearest_double 0.8) \<and>
   (classify_trend s = ''Declining'' \<longleftrightarrow> s < - nearest_double 0.8) \<and>
   (classify_trend s = ''Stable'' \<longleftrightarrow> - nearest_double 0.8 \<le> s \<and> s \<le> nearest_double 0.8) \<and>
   classify_trend (nearest_double 0.8) = ''Stable'' \<and>
   classify_trend (- nearest_double 0.8) = ''Stable'' \<and>
   classify_trend (nearest_double 0.8000001) = ''Rising''"
proof -
  define t where "t = nearest_double 0.8"
  have pos: "0 < t" unfolding t_def literal_0_8 by simp
  have up: "t < nearest_double 0.8000001" unfolding t_def literal_0_8 literal_0_8000001 by simp
  have c: "classify_trend x = (if x > t then ''Rising'' else if x < - t then ''Declining'' else ''Stable'')" for x
    unfolding t_def classify_trend_def by (rule refl)
  have "classify_trend s \<in> {''Rising'', ''Stable'', ''Declining''} \<and>
   (classify_trend s = ''Rising'' \<longleftrightarrow> s > t) \<and>
   (classify_trend s = ''Declining'' \<longleftrightarrow> s < - t) \<and>
   (classify_trend s = ''Stable'' \<longleftrightarrow> - t \<le> s \<and> s \<le> t) \<and>
   classify_trend t = ''Stable'' \<and>
   classify_trend (- t) = ''Stable'' \<and>
   classify_trend (nearest_double 0.8000001) = ''Rising''"
    using pos up unfolding c by auto
  then show ?thesis unfolding t_def .
qed

text \<open>
  C7. For every slope \<open>s\<close>, the score is the float \<open>s * 12 + 50\<close> clamped to \<open>[0, 100]\<close> and
  then rounded; it is an integer between 0 and 100, at most one half away from the clamped
  value, and it does not decrease when the slope grows. The scores of the slopes 0, 10
  and -10 are 50, 100 and 0.
\<close>

theorem calculate_score_clamped_rounded:
  "calculate_score s = py_round (max 0 (min 100 (float_of (float_of (s * 12) + 50)))) \<and>
   \<bar>of_int (calculate_score s) - max 0 (min 100 (float_of (float_of (s * 12) + 50)))\<bar> \<le> 1 / 2 \<and>
   0 \<le> calculate_score s \<and> calculate_score s \<le> 100 \<and>
   (s \<le> t \<longrightarrow> calculate_score s \<le> calculate_score t) \<and>
   calculate_score 0 = 50 \<and> calculate_score 10 = 100 \<and> calculate_score (- 10) = 0"
proof -
  let ?c = "\<lambda>s::real. max 0 (min 100 (float_of (float_of (s * 12) + 50)))"
  have eq: "\<And>s. calculate_score s = py_round (?c s)"
    by (simp add: calculate_score_def Let_def)
  have lo: "0 \<le> calculate_score s"
    using py_round_mono [of 0 "?c s"] py_round_of_int [of 0] by (simp add: eq)
  have hi: "calculate_score s \<le> 100"
    using py_round_mono [of "?c s" 100] py_round_of_int [of 100] by (simp add: eq)
  have mono: "s \<le> t \<longrightarrow> calculate_score s \<le> calculate_score t"
  proof
    assume "s \<le> t"
    then have "s * 12 \<le> t * 12" by simp
    then have "float_of (s * 12) + 50 \<le> float_of (t * 12) + 50"
      using float_of_mono by simp
    then have "float_of (float_of (s * 12) + 50) \<le> float_of (float_of (t * 12) + 50)"
      by (rule float_of_mono)
    then have "?c s \<le> ?c t" by (simp add: max.coboundedI2 min.coboundedI2)
    then show "calculate_score s \<le> calculate_score t"
      unfolding eq by (rule py_round_mono)
  qed
  have near: "\<bar>of_int (calculate_score s) - ?c s\<bar> \<le> 1 / 2"
    unfolding eq by (rule py_round_near)
  show ?thesis using eq [of s] near lo hi mono score_values(1-3) by blast
qed

theorem calculate_score_clamped_rounded_witness:
  "(1::real) \<le> 2 \<and> calculate_score 1 \<le> calculate_score 2 \<and>
   calculate_score 1 = 62 \<and> calculate_score 2 = 74"
proof -
  have "(1::real) \<le> 2 \<longrightarrow> calculate_score 1 \<le> calculate_score 2"
    using calculate_score_clamped_rounded [of 1 2] by blast
  then show ?thesis using score_values(4,5) by simp
qed

text \<open>
  C9. A slope whose label is not Stable has an absolute value above 0.8, so its confidence
  is Medium or High, never Low.
\<close>

theorem non_stable_trend_not_low:
  "classify_trend s \<noteq> ''Stable'' \<Longrightarrow>
     \<bar>s\<bar> > 0.8 \<and> \<bar>s\<bar> > nearest_double 0.8 \<and>
     determine_confidence s \<in> {''Medium'', ''High''} \<and>
     determine_confidence s \<noteq> ''Low''"
proof -
  assume "classify_trend s \<noteq> ''Stable''"
  then have a: "\<bar>s\<bar> > nearest_double 0.8"
    by (auto simp: classify_trend_def split: if_splits)
  have "(0.8::real) < nearest_double 0.8" unfolding literal_0_8 by simp
  then have b: "\<bar>s\<bar> > 0.8" using a by linarith
  have "nearest_double 0.6 < nearest_double 0.8" unfolding literal_0_8 literal_0_6 by simp
  then have "\<bar>s\<bar> > nearest_double 0.6" using a by linarith
  then have c: "determine_confidence s \<in> {''Medium'', ''High''}" "determine_confidence s \<noteq> ''Low''"
    by (simp_all add: determine_confidence_def Let_def)
  show ?thesis using a b c by blast
qed

theorem non_stable_trend_not_low_witness:
  "classify_trend 1 \<noteq> ''Stable'' \<and> determine_confidence 1 = ''Medium'' \<and>
   classify_trend (- 2) \<noteq> ''Stable'' \<and> determine_confidence (- 2) = ''High''"
proof -
  have a: "classify_trend 1 \<noteq> ''Stable''" "classify_trend (- 2) \<noteq> ''Stable''"
    unfolding classify_trend_def literal_0_8 by simp_all
  have b: "determine_confidence 1 \<noteq> ''High''" "determine_confidence (- 2) \<noteq> ''Medium''"
    unfolding determine_confidence_def Let_def literal_1_2 literal_0_6 by simp_all
  show ?thesis
    using non_stable_trend_not_low [of 1] non_stable_trend_not_low [of "- 2"] a b by simp
qed

subsection \<open>Ties of the score\<close>

lemma tie_values:
  "calculate_score 0.125 = 52" "calculate_score 0.375 = 54"
  "float_of (float_of (0.125 * 12) + 50) = 51.5"
  "float_of (float_of (0.375 * 12) + 50) = 54.5"
proof -
  have a: "float_of (0.125 * 12) = 1.5" using float_of_half [of 3] by simp
  have b: "float_of (1.5 + 50) = 51.5" using float_of_half [of 103] by simp
  have c: "float_of (0.375 * 12) = 4.5" using float_of_half [of 9] by simp
  have d: "float_of (4.5 + 50) = 54.5" using float_of_half [of 109] by simp
  show "calculate_score 0.125 = 52"
    using score_from [OF a b] by (simp add: round_half_even_def)
  show "calculate_score 0.375 = 54"
    using score_from [OF c d] by (simp add: round_half_even_def)
  show "float_of (float_of (0.125 * 12) + 50) = 51.5" unfolding a b by (rule refl)
  show "float_of (float_of (0.375 * 12) + 50) = 54.5" unfolding c d by (rule refl)
qed

lemma rounded_tie:
  "nearest_double 0.20833333333333334 * 12 + 50 \<noteq> 52.5"
  "float_of (float_of (nearest_double 0.20833333333333334 * 12) + 50) = 52.5"
  "calculate_score (nearest_double 0.20833333333333334) = 52"
proof -
  have n: "nearest_double (7505999378950827 / 36028797018963968 * 12) = 5 / 2"
    by (subst nearest_double_eq [of 1]) (simp_all add: round_half_even_def)
  have "\<bar>nearest_double (7505999378950827 / 36028797018963968 * 12)\<bar> < float_infinity"
    unfolding n float_infinity_def by simp
  then have "float_of (7505999378950827 / 36028797018963968 * 12) =
      nearest_double (7505999378950827 / 36028797018963968 * 12)"
    by (rule float_of_finite)
  then have a: "float_of (nearest_double 0.20833333333333334 * 12) = 5 / 2"
    unfolding literal_0_2083 n .
  have b: "float_of (5 / 2 + 50) = 52.5" using float_of_half [of 105] by simp
  show "nearest_double 0.20833333333333334 * 12 + 50 \<noteq> 52.5"
    unfolding literal_0_2083 by simp
  show "float_of (float_of (nearest_double 0.20833333333333334 * 12) + 50) = 52.5"
    unfolding a b by (rule refl)
  show "calculate_score (nearest_double 0.20833333333333334) = 52"
    using score_from [OF a b] by (simp add: round_half_even_def)
qed

text \<open>
  C10 (as amended). When the clamped value of the float \<open>s * 12 + 50\<close> is \<open>k + 1/2\<close> for an
  integer \<open>k\<close> from 0 to 99, the score is the even one of \<open>k\<close> and \<open>k + 1\<close>. Rounding a tie up
  gives \<open>k + 1\<close>, which differs from the score exactly when \<open>k\<close> is even: at slope 0.375
  the score is 54 and rounding up gives 55, at slope 0.125 both are 52. At the float
  \<open>0.20833333333333334\<close> the float \<open>s * 12 + 50\<close> is \<open>52.5\<close> and the score is 52.
\<close>

theorem calculate_score_half_even:
  "(0 \<le> k \<and> k \<le> 99 \<and>
    max 0 (min 100 (float_of (float_of (s * 12) + 50))) = of_int k + 1 / 2 \<longrightarrow>
      calculate_score s = (if even k then k else k + 1) \<and> even (calculate_score s) \<and>
      (round_half_up (max 0 (min 100 (float_of (float_of (s * 12) + 50)))) \<noteq> calculate_score s
         \<longleftrightarrow> even k)) \<and>
   calculate_score 0.125 = 52 \<and> calculate_score 0.375 = 54 \<and>
   calculate_score (nearest_double 0.20833333333333334) = 52 \<and>
   round_half_up (max 0 (min 100 (float_of (float_of (0.375 * 12) + 50)))) = 55 \<and>
   round_half_up (max 0 (min 100 (float_of (float_of (0.125 * 12) + 50)))) = 52"
proof -
  let ?c = "\<lambda>s::real. max 0 (min 100 (float_of (float_of (s * 12) + 50)))"
  have gen: "0 \<le> k \<and> k \<le> 99 \<and> ?c s = of_int k + 1 / 2 \<longrightarrow>
      calculate_score s = (if even k then k else k + 1) \<and> even (calculate_score s) \<and>
      (round_half_up (?c s) \<noteq> calculate_score s \<longleftrightarrow> even k)"
  proof
    assume h: "0 \<le> k \<and> k \<le> 99 \<and> ?c s = of_int k + 1 / 2"
    then have c: "?c s = of_int k + 1 / 2" by simp
    have sc: "calculate_score s = (if even k then k else k + 1)"
      unfolding calculate_score_def Let_def c by (rule py_round_half)
    have up: "round_half_up (of_int k + 1 / 2) = k + 1"
      unfolding round_half_up_def by linarith
    show "calculate_score s = (if even k then k else k + 1) \<and> even (calculate_score s) \<and>
      (round_half_up (?c s) \<noteq> calculate_score s \<longleftrightarrow> even k)"
      unfolding c up sc by simp
  qed
  have e3: "round_half_up (?c 0.375) = 55"
    unfolding tie_values by (simp add: round_half_up_def)
  have e4: "round_half_up (?c 0.125) = 52"
    unfolding tie_values by (simp add: round_half_up_def)
  show ?thesis using gen tie_values(1,2) rounded_tie(3) e3 e4 by blast
qed

theorem calculate_score_half_even_witness:
  "max 0 (min 100 (float_of (float_of (0.375 * 12) + 50))) = (of_int 54 + 1 / 2 :: real) \<and>
   calculate_score 0.375 = 54 \<and>
   round_half_up (max 0 (min 100 (float_of (float_of (0.375 * 12) + 50)))) \<noteq> calculate_score 0.375 \<and>
   nearest_double 0.20833333333333334 * 12 + 50 \<noteq> 52.5 \<and>
   max 0 (min 100 (float_of (float_of (nearest_double 0.20833333333333334 * 12) + 50))) =
     (of_int 52 + 1 / 2 :: real) \<and>
   calculate_score (nearest_double 0.20833333333333334) = 52 \<and>
   round_half_up (max 0 (min 100 (float_of (float_of (nearest_double 0.20833333333333334 * 12) + 50))))
     \<noteq> calculate_score (nearest_double 0.20833333333333334)"
proof -
  have h: "max 0 (min 100 (float_of (float_of (0.375 * 12) + 50))) = (of_int 54 + 1 / 2 :: real)"
    unfolding tie_values by simp
  have g: "max 0 (min 100 (float_of (float_of (nearest_double 0.20833333333333334 * 12) + 50))) =
     (of_int 52 + 1 / 2 :: real)"
    unfolding rounded_tie by simp
  have k: "(0::int) \<le> 54" "(54::int) \<le> 99" "even (54::int)"
    "(0::int) \<le> 52" "(52::int) \<le> 99" "even (52::int)" by simp_all
  have a: "round_half_up (max 0 (min 100 (float_of (float_of (0.375 * 12) + 50)))) \<noteq>
      calculate_score 0.375"
    using calculate_score_half_even [of 54 "0.375"] h k by blast
  have b: "round_half_up
      (max 0 (min 100 (float_of (float_of (nearest_double 0.20833333333333334 * 12) + 50)))) \<noteq>
      calculate_score (nearest_double 0.20833333333333334)"
    using calculate_score_half_even [of 52 "nearest_double 0.20833333333333334"] g k by blast
  show ?thesis using h g a b tie_values(2) rounded_tie(1,3) by blast
qed

text \<open>
  C10 as stated says that rounding a tie up disagrees with the score at slope 0.125 too;
  there both give 52.
\<close>

theorem half_up_agrees_at_eighth:
  "\<not> (round_half_up (max 0 (min 100 (float_of (float_of (0.125 * 12) + 50)))) \<noteq>
      calculate_score 0.125)"
  unfolding tie_values by (simp add: round_half_up_def)

subsection \<open>The slope\<close>

lemma sum_index: "2 * (\<Sum>i<n. int i) = int n * (int n - 1)"
  by (induction n) (simp_all add: algebra_simps)

lemma sum_index_squares: "6 * (\<Sum>i<n. (int i)\<^sup>2) = int n * (int n - 1) * (2 * int n - 1)"
  by (induction n) (simp_all add: algebra_simps power2_eq_square)

lemma ols_denominator_closed: "12 * ols_denominator n = (int n)\<^sup>2 * ((int n)\<^sup>2 - 1)"
proof -
  have "12 * ols_denominator n =
      2 * int n * (6 * (\<Sum>i<n. (int i)\<^sup>2)) - 3 * (2 * (\<Sum>i<n. int i))\<^sup>2"
    by (simp add: ols_denominator_def power2_eq_square algebra_simps)
  also have "\<dots> = 2 * int n * (int n * (int n - 1) * (2 * int n - 1)) - 3 * (int n * (int n - 1))\<^sup>2"
    by (simp only: sum_index sum_index_squares)
  also have "\<dots> = (int n)\<^sup>2 * ((int n)\<^sup>2 - 1)"
    by (simp add: power2_eq_square algebra_simps)
  finally show ?thesis .
qed

lemma ols_denominator_pos: "2 \<le> n \<Longrightarrow> 0 < ols_denominator n"
proof -
  assume n: "2 \<le> n"
  then have "2 \<le> int n" by simp
  then have "2 * 2 \<le> int n * int n" by (intro mult_mono) simp_all
  then have sq: "4 \<le> (int n)\<^sup>2" by (simp add: power2_eq_square)
  have "0 < (int n)\<^sup>2" and "0 < (int n)\<^sup>2 - 1"
    using sq by linarith+
  then have "0 < (int n)\<^sup>2 * ((int n)\<^sup>2 - 1)"
    by (rule mult_pos_pos)
  then show ?thesis using ols_denominator_closed [of n] by linarith
qed

lemma sum_list_upt: "sum_list (map f [0..<n]) = (\<Sum>i<n. f i)"
  by (simp add: interv_sum_list_conv_sum_set_nat atLeast0LessThan)

lemma slope_sum_x: "sum_list (map int [0..<n]) = (\<Sum>i<n. int i)"
  by (rule sum_list_upt)

lemma slope_sum_y: "sum_list ys = (\<Sum>i<length ys. ys ! i)"
  by (simp add: sum_list_sum_nth atLeast0LessThan)

lemma slope_sum_xy:
  "sum_list (map (\<lambda>i. map int [0..<n] ! i * ys ! i) [0..<n]) = (\<Sum>i<n. int i * ys ! i)"
proof -
  have "map (\<lambda>i. map int [0..<n] ! i * ys ! i) [0..<n] = map (\<lambda>i. int i * ys ! i) [0..<n]"
    by (rule map_cong) simp_all
  then show ?thesis by (simp only: sum_list_upt)
qed

lemma slope_sum_xx: "sum_list (map (\<lambda>xi. xi\<^sup>2) (map int [0..<n])) = (\<Sum>i<n. (int i)\<^sup>2)"
  by (simp add: comp_def sum_list_upt)

lemma calculate_slope_sums:
  "calculate_slope ys =
     (if length ys < 2 then Inr 0
      else if ols_denominator (length ys) = 0 then Inr 0
      else int_true_divide (ols_numerator ys) (ols_denominator (length ys)))"
  unfolding calculate_slope_def Let_def slope_sum_x slope_sum_xy slope_sum_xx
    ols_numerator_def ols_denominator_def
  by (simp add: slope_sum_y [symmetric])

lemma calculate_slope_nearest:
  assumes "2 \<le> length ys"
  shows "calculate_slope ys =
     (if float_infinity \<le> \<bar>nearest_double (least_squares_slope ys)\<bar>
      then Inl (Exception ''integer division result too large for a float'')
      else Inr (nearest_double (least_squares_slope ys)))"
proof -
  have "ols_denominator (length ys) \<noteq> 0" using ols_denominator_pos [OF assms] by simp
  then show ?thesis
    using assms by (simp add: calculate_slope_sums int_true_divide_def Let_def least_squares_slope_def)
qed

lemma nearest_double_relative:
  assumes "2 powi (- 1022) \<le> \<bar>x\<bar>"
  shows "\<bar>nearest_double x - x\<bar> \<le> \<bar>x\<bar> / 2 ^ 53"
proof -
  let ?e = "exponent \<bar>x\<bar>"
  have pos: "0 < \<bar>x\<bar>" using assms ulp_pos [of "- 1022"] by linarith
  have low: "2 powi ?e \<le> \<bar>x\<bar>"
  proof (cases "- 1022 < ?e")
    case True
    then show ?thesis using pos by (intro exponent_lower)
  next
    case False
    then have "?e = - 1022" using exponent_ge [of "\<bar>x\<bar>"] by linarith
    then show ?thesis using assms by simp
  qed
  have "(2::real) powi (?e - 53) = 2 powi ?e / 2 powi 53" by (rule power_int_diff) simp
  then have "(2::real) powi (?e - 53) = 2 powi ?e / 2 ^ 53" by simp
  moreover have "2 powi ?e / 2 ^ 53 \<le> \<bar>x\<bar> / 2 ^ 53"
    using low by (intro divide_right_mono) simp_all
  ultimately show ?thesis using nearest_double_error [of x] by linarith
qed

lemma nearest_double_int: "\<bar>m\<bar> < 2 ^ 53 \<Longrightarrow> nearest_double (of_int m) = of_int m"
  by (rule nearest_double_exact [of _ m 0]) simp_all

lemma calculate_slope_divide:
  "2 \<le> length ys \<Longrightarrow>
   calculate_slope ys = int_true_divide (ols_numerator ys) (ols_denominator (length ys))"
  using ols_denominator_pos [of "length ys"] by (simp add: calculate_slope_sums)

lemma slope_parts:
  "ols_numerator [10, 20, 30, 40, 50, 60, 70] = 1960"
  "ols_denominator (length [10, 20, 30, 40, 50, 60, 70 :: int]) = 196"
  "ols_numerator [5, 5, 5, 5, 5] = 0"
  "ols_denominator (length [5, 5, 5, 5, 5 :: int]) = 50"
  "ols_numerator [0, 0, 1, 0] = 2"
  "ols_denominator (length [0, 0, 1, 0 :: int]) = 20"
  "ols_numerator [- (2 ^ 1023), 2 ^ 1023] = 2 ^ 1024"
  "ols_denominator (length [- (2 ^ 1023), 2 ^ 1023 :: int]) = 1"
  by (simp_all add: ols_numerator_def ols_denominator_def eval_nat_numeral lessThan_Suc)

lemma slope_values:
  "calculate_slope [10, 20, 30, 40, 50, 60, 70] = Inr 10"
  "calculate_slope [5, 5, 5, 5, 5] = Inr 0"
proof -
  have a: "nearest_double 10 = 10" "nearest_double 0 = 0"
    using nearest_double_int [of 10] nearest_double_int [of 0] by simp_all
  have "calculate_slope [10, 20, 30, 40, 50, 60, 70] =
      int_true_divide (ols_numerator [10, 20, 30, 40, 50, 60, 70])
        (ols_denominator (length [10, 20, 30, 40, 50, 60, 70 :: int]))"
    by (rule calculate_slope_divide) simp
  then show "calculate_slope [10, 20, 30, 40, 50, 60, 70] = Inr 10"
    unfolding slope_parts by (simp add: int_true_divide_def a float_infinity_def)
  have "calculate_slope [5, 5, 5, 5, 5] =
      int_true_divide (ols_numerator [5, 5, 5, 5, 5]) (ols_denominator (length [5, 5, 5, 5, 5 :: int]))"
    by (rule calculate_slope_divide) simp
  then show "calculate_slope [5, 5, 5, 5, 5] = Inr 0"
    unfolding slope_parts by (simp add: int_true_divide_def a float_infinity_def)
qed

lemma slope_overflow:
  "calculate_slope [- (2 ^ 1023), 2 ^ 1023] =
     Inl (Exception ''integer division result too large for a float'')"
proof -
  have "nearest_double (2 ^ 1024) = 2 ^ 1024"
    by (rule nearest_double_exact [of _ 1 1024]) simp_all
  then have "int_true_divide (2 ^ 1024) 1 =
      Inl (Exception ''integer division result too large for a float'')"
    by (simp add: int_true_divide_def float_infinity_def)
  moreover have "calculate_slope [- (2 ^ 1023), 2 ^ 1023] =
      int_true_divide (ols_numerator [- (2 ^ 1023), 2 ^ 1023])
        (ols_denominator (length [- (2 ^ 1023), 2 ^ 1023 :: int]))"
    by (rule calculate_slope_divide) simp
  ultimately show ?thesis by (simp only: slope_parts)
qed

lemma slope_tenth:
  "least_squares_slope [0, 0, 1, 0] = 1 / 10"
  "calculate_slope [0, 0, 1, 0] = Inr (3602879701896397 / 36028797018963968)"
proof -
  show l: "least_squares_slope [0, 0, 1, 0] = 1 / 10"
    unfolding least_squares_slope_def slope_parts by simp
  have n: "nearest_double (1 / 10) = 3602879701896397 / 36028797018963968"
    by (subst nearest_double_eq [of "- 4"]) (simp_all add: round_half_even_def)
  have "calculate_slope [0, 0, 1, 0] =
     (if float_infinity \<le> \<bar>nearest_double (least_squares_slope [0, 0, 1, 0])\<bar>
      then Inl (Exception ''integer division result too large for a float'')
      else Inr (nearest_double (least_squares_slope [0, 0, 1, 0])))"
    by (rule calculate_slope_nearest) simp
  then show "calculate_slope [0, 0, 1, 0] = Inr (3602879701896397 / 36028797018963968)"
    unfolding l n by (simp add: float_infinity_def)
qed

text \<open>
  C5 (as amended). For a series of fewer than two points \<open>calculate_slope\<close> is 0. For a
  longer one the denominator \<open>n * Sxx - Sx\<^sup>2\<close> is \<open>n\<^sup>2 * (n\<^sup>2 - 1) / 12\<close>, which is positive,
  and \<open>calculate_slope\<close> is the double nearest to the least-squares coefficient
  \<open>(n * Sxy - Sx * Sy) / (n * Sxx - Sx\<^sup>2)\<close> of the values against their 0-based index: within
  half a unit of its last place, so within \<open>2\<^sup>-\<^sup>5\<^sup>3\<close> of it relatively, and the coefficient
  itself when that is a double. When the nearest double would not be finite, the division
  raises \<^verbatim>\<open>OverflowError\<close>. The series \<open>[10, 20, 30, 40, 50, 60, 70]\<close> has slope 10 and
  \<open>[5, 5, 5, 5, 5]\<close> has slope 0.
\<close>

theorem calculate_slope_least_squares:
  "(length ys < 2 \<longrightarrow> calculate_slope ys = Inr 0) \<and>
   (2 \<le> length ys \<longrightarrow>
      12 * ols_denominator (length ys) = (int (length ys))\<^sup>2 * ((int (length ys))\<^sup>2 - 1) \<and>
      0 < ols_denominator (length ys) \<and>
      calculate_slope ys =
        (if float_infinity \<le> \<bar>nearest_double (least_squares_slope ys)\<bar>
         then Inl (Exception ''integer division result too large for a float'')
         else Inr (nearest_double (least_squares_slope ys))) \<and>
      \<bar>nearest_double (least_squares_slope ys) - least_squares_slope ys\<bar>
         \<le> 2 powi (exponent \<bar>least_squares_slope ys\<bar> - 53) \<and>
      (2 powi (- 1022) \<le> \<bar>least_squares_slope ys\<bar> \<longrightarrow>
         \<bar>nearest_double (least_squares_slope ys) - least_squares_slope ys\<bar>
           \<le> \<bar>least_squares_slope ys\<bar> / 2 ^ 53) \<and>
      (least_squares_slope ys = of_int m * 2 powi k \<and> \<bar>m\<bar> < 2 ^ 53 \<and> - 1074 \<le> k \<and>
       \<bar>least_squares_slope ys\<bar> < float_infinity \<longrightarrow>
         calculate_slope ys = Inr (least_squares_slope ys))) \<and>
   calculate_slope [10, 20, 30, 40, 50, 60, 70] = Inr 10 \<and>
   calculate_slope [5, 5, 5, 5, 5] = Inr 0"
proof -
  let ?q = "least_squares_slope ys"
  have short: "length ys < 2 \<longrightarrow> calculate_slope ys = Inr 0"
    by (simp add: calculate_slope_sums)
  have long: "2 \<le> length ys \<longrightarrow>
      12 * ols_denominator (length ys) = (int (length ys))\<^sup>2 * ((int (length ys))\<^sup>2 - 1) \<and>
      0 < ols_denominator (length ys) \<and>
      calculate_slope ys =
        (if float_infinity \<le> \<bar>nearest_double ?q\<bar>
         then Inl (Exception ''integer division result too large for a float'')
         else Inr (nearest_double ?q)) \<and>
      \<bar>nearest_double ?q - ?q\<bar> \<le> 2 powi (exponent \<bar>?q\<bar> - 53) \<and>
      (2 powi (- 1022) \<le> \<bar>?q\<bar> \<longrightarrow> \<bar>nearest_double ?q - ?q\<bar> \<le> \<bar>?q\<bar> / 2 ^ 53) \<and>
      (?q = of_int m * 2 powi k \<and> \<bar>m\<bar> < 2 ^ 53 \<and> - 1074 \<le> k \<and> \<bar>?q\<bar> < float_infinity \<longrightarrow>
         calculate_slope ys = Inr ?q)"
  proof
    assume n: "2 \<le> length ys"
    have c: "calculate_slope ys =
        (if float_infinity \<le> \<bar>nearest_double ?q\<bar>
         then Inl (Exception ''integer division result too large for a float'')
         else Inr (nearest_double ?q))"
      using n by (rule calculate_slope_nearest)
    have x: "?q = of_int m * 2 powi k \<and> \<bar>m\<bar> < 2 ^ 53 \<and> - 1074 \<le> k \<and> \<bar>?q\<bar> < float_infinity \<longrightarrow>
         calculate_slope ys = Inr ?q"
    proof
      assume h: "?q = of_int m * 2 powi k \<and> \<bar>m\<bar> < 2 ^ 53 \<and> - 1074 \<le> k \<and> \<bar>?q\<bar> < float_infinity"
      then have ex: "nearest_double ?q = ?q" by (intro nearest_double_exact [of _ m k]) simp_all
      have fin: "\<not> float_infinity \<le> \<bar>?q\<bar>" using h by linarith
      show "calculate_slope ys = Inr ?q" unfolding c ex using fin by simp
    qed
    show "12 * ols_denominator (length ys) = (int (length ys))\<^sup>2 * ((int (length ys))\<^sup>2 - 1) \<and>
      0 < ols_denominator (length ys) \<and>
      calculate_slope ys =
        (if float_infinity \<le> \<bar>nearest_double ?q\<bar>
         then Inl (Exception ''integer division result too large for a float'')
         else Inr (nearest_double ?q)) \<and>
      \<bar>nearest_double ?q - ?q\<bar> \<le> 2 powi (exponent \<bar>?q\<bar> - 53) \<and>
      (2 powi (- 1022) \<le> \<bar>?q\<bar> \<longrightarrow> \<bar>nearest_double ?q - ?q\<bar> \<le> \<bar>?q\<bar> / 2 ^ 53) \<and>
      (?q = of_int m * 2 powi k \<and> \<bar>m\<bar> < 2 ^ 53 \<and> - 1074 \<le> k \<and> \<bar>?q\<bar> < float_infinity \<longrightarrow>
         calculate_slope ys = Inr ?q)"
      using ols_denominator_closed [of "length ys"] ols_denominator_pos [OF n] c
        nearest_double_error [of ?q] nearest_double_relative [of ?q] x
      by blast
  qed
  show ?thesis using short long slope_values by blast
qed

theorem calculate_slope_least_squares_witness:
  "length [0, 0, 1, 0 :: int] = 4 \<and> least_squares_slope [0, 0, 1, 0] = 1 / 10 \<and>
   calculate_slope [0, 0, 1, 0] = Inr (nearest_double (1 / 10)) \<and>
   \<bar>nearest_double (1 / 10) - 1 / 10\<bar> \<le> 1 / 10 / 2 ^ 53 \<and>
   least_squares_slope [10, 20, 30, 40, 50, 60, 70] = of_int 10 * 2 powi 0 \<and>
   calculate_slope [10, 20, 30, 40, 50, 60, 70] = Inr 10 \<and>
   calculate_slope [7] = Inr 0"
proof -
  have n: "nearest_double (1 / 10) = 3602879701896397 / 36028797018963968"
    by (subst nearest_double_eq [of "- 4"]) (simp_all add: round_half_even_def)
  have fin: "\<not> float_infinity \<le> \<bar>nearest_double (1 / 10)\<bar>"
    unfolding n float_infinity_def by simp
  have big: "(2::real) powi (- 1022) \<le> \<bar>1 / 10\<bar>"
  proof -
    have "(2::real) powi (- 1022) \<le> 2 powi (- 4)" by (rule power_int_increasing) simp_all
    then show ?thesis by simp
  qed
  have len: "(2::nat) \<le> length [0, 0, 1, 0 :: int]" "length [7 :: int] < 2"
    "(2::nat) \<le> length [10, 20, 30, 40, 50, 60, 70 :: int]" by simp_all
  have a: "calculate_slope [0, 0, 1, 0] = Inr (nearest_double (1 / 10))"
    "\<bar>nearest_double (1 / 10) - 1 / 10\<bar> \<le> 1 / 10 / 2 ^ 53"
    using calculate_slope_least_squares [of "[0, 0, 1, 0]"] len(1) fin big
    unfolding slope_tenth(1) by auto
  have q: "least_squares_slope [10, 20, 30, 40, 50, 60, 70] = of_int 10 * 2 powi 0"
    unfolding least_squares_slope_def slope_parts by simp
  have fin10: "\<bar>least_squares_slope [10, 20, 30, 40, 50, 60, 70]\<bar> < float_infinity"
    unfolding q float_infinity_def by simp
  have dyadic: "\<bar>10 :: int\<bar> < 2 ^ 53" "- 1074 \<le> (0::int)" by simp_all
  have "calculate_slope [10, 20, 30, 40, 50, 60, 70] =
      Inr (least_squares_slope [10, 20, 30, 40, 50, 60, 70])"
    using calculate_slope_least_squares [of "[10, 20, 30, 40, 50, 60, 70]" 10 0]
      len(3) q fin10 dyadic by blast
  then have b: "calculate_slope [10, 20, 30, 40, 50, 60, 70] = Inr 10"
    unfolding q by simp
  have c: "calculate_slope [7] = Inr 0"
    using calculate_slope_least_squares [of "[7]"] len(2) by blast
  show ?thesis using a b c q slope_tenth(1) by simp
qed

text \<open>
  C5 as stated gives the coefficient itself for every integer series. For the two points
  \<open>- 2\<^sup>1\<^sup>0\<^sup>2\<^sup>3\<close> and \<open>2\<^sup>1\<^sup>0\<^sup>2\<^sup>3\<close> the division raises, and for \<open>[0, 0, 1, 0]\<close>, whose coefficient is
  \<open>1/10\<close>, the slope is the double next to it.
\<close>

theorem calculate_slope_overflows:
  "calculate_slope [- (2 ^ 1023), 2 ^ 1023] =
     Inl (Exception ''integer division result too large for a float'') \<and>
   least_squares_slope [0, 0, 1, 0] = 1 / 10 \<and>
   calculate_slope [0, 0, 1, 0] = Inr (3602879701896397 / 36028797018963968) \<and>
   (3602879701896397 / 36028797018963968 :: real) \<noteq> 1 / 10"
  using slope_overflow slope_tenth by simp

subsection \<open>Cleaning the series\<close>

lemma py_int_number: "is_number v \<Longrightarrow> py_int v = Inr (as_int v)"
  by (cases v) simp_all

lemma int_each_numbers: "list_all is_number vs \<Longrightarrow> int_each vs = Inr (map as_int vs)"
  by (induction vs) (simp_all add: py_int_number)

lemma filter_drop_other:
  "kw \<noteq> name \<Longrightarrow>
   filter (\<lambda>(c, vs). c = kw) (filter (\<lambda>(c, vs). c \<noteq> name) cols) = filter (\<lambda>(c, vs). c = kw) cols"
  by (induction cols) auto

lemma filter_dropped:
  "filter (\<lambda>(c, vs). c = name) (filter (\<lambda>(c, vs). c \<noteq> name) cols) = []"
  by (induction cols) auto

lemma column_tolist_drop:
  "kw \<noteq> name \<Longrightarrow> column_tolist (drop_column name d) kw = column_tolist d kw"
  by (simp add: column_tolist_def drop_column_def filter_drop_other del: filter_filter)

lemma column_tolist_dropped:
  "column_tolist (drop_column name d) name = Inl (Exception (py_repr name))"
  by (simp add: column_tolist_def drop_column_def filter_dropped del: filter_filter)

lemma column_tolist_one:
  "filter (\<lambda>(c, vs). c = kw) (columns d) = [(kw, vals)] \<Longrightarrow> column_tolist d kw = Inr vals"
  by (simp add: column_tolist_def)

lemma column_tolist_several:
  "2 \<le> length (filter (\<lambda>(c, vs). c = kw) (columns d)) \<Longrightarrow>
   column_tolist d kw =
     Inl (Exception (quoted ''DataFrame'' @ '' object has no attribute '' @ quoted ''tolist''))"
  by (auto simp: column_tolist_def split: list.splits)

lemma clean_data_column:
  assumes "\<not> df_empty d" and "kw \<noteq> ''isPartial''"
    and "filter (\<lambda>(c, vs). c = kw) (columns d) = [(kw, vals)]"
  shows "clean_data (Some d) kw =
     int_each (if 7 \<le> length vals then drop (length vals - 7) vals else vals)"
proof -
  have "column_tolist (if ''isPartial'' \<in> set (map fst (columns d))
                      then drop_column ''isPartial'' d else d) kw = Inr vals"
    using assms by (simp add: column_tolist_drop column_tolist_one)
  then show ?thesis
    using assms(1) by (simp add: clean_data_def Let_def slice_from_def nat_diff_distrib')
qed

lemma clean_data_several:
  assumes "\<not> df_empty d" and "kw \<noteq> ''isPartial''"
    and "2 \<le> length (filter (\<lambda>(c, vs). c = kw) (columns d))"
  shows "clean_data (Some d) kw =
     Inl (Exception (quoted ''DataFrame'' @ '' object has no attribute '' @ quoted ''tolist''))"
proof -
  have "column_tolist (if ''isPartial'' \<in> set (map fst (columns d))
                      then drop_column ''isPartial'' d else d) kw =
     Inl (Exception (quoted ''DataFrame'' @ '' object has no attribute '' @ quoted ''tolist''))"
    using assms by (simp add: column_tolist_drop column_tolist_several)
  then show ?thesis using assms(1) by (simp add: clean_data_def Let_def)
qed

lemma plain_labels:
  "py_repr ''isPartial'' = quoted ''isPartial''" "py_repr ''tea'' = quoted ''tea''"
  by code_simp+

lemma clean_data_marker:
  assumes "\<not> df_empty d" and "''isPartial'' \<in> set (map fst (columns d))"
  shows "clean_data (Some d) ''isPartial'' = Inl (Exception (quoted ''isPartial''))"
  using assms by (simp add: clean_data_def Let_def column_tolist_dropped plain_labels)

lemma well_formed_column:
  assumes "well_formed d" and "filter (\<lambda>(c, vs). c = kw) (columns d) = [(kw, vals)]"
  shows "length vals = nrows d"
proof -
  have "(kw, vals) \<in> set (filter (\<lambda>(c, vs). c = kw) (columns d))" using assms(2) by simp
  then have "(kw, vals) \<in> set (columns d)" by simp
  then show ?thesis using assms(1) by (auto simp: well_formed_def list_all_iff)
qed

lemma trunc_towards_zero: "\<bar>of_int (trunc x)\<bar> \<le> \<bar>x\<bar> \<and> \<bar>x - of_int (trunc x)\<bar> < 1"
  unfolding trunc_def by (auto; linarith)

text \<open>
  C8. \<open>clean_data\<close> returns the empty list for an absent or an empty table. For a table
  that is not empty and has one column of numbers for the keyword, it returns the last
  seven values of that column in their order when there are seven or more, and all of them
  otherwise, each converted to an integer by truncation towards zero; a table of ten
  points gives its last seven. The marker column \<^verbatim>\<open>isPartial\<close> is dropped first: it has no
  influence on the result for another keyword, and asking for it as the keyword finds no
  column. A label that several columns carry is not extracted: the call raises.
\<close>

theorem clean_data_last_seven:
  "clean_data None kw = Inr [] \<and>
   (df_empty d \<longrightarrow> clean_data (Some d) kw = Inr []) \<and>
   (\<not> df_empty d \<and> well_formed d \<and> kw \<noteq> ''isPartial'' \<and>
    filter (\<lambda>(c, vs). c = kw) (columns d) = [(kw, vals)] \<and> list_all is_number vals \<longrightarrow>
      length vals = nrows d \<and>
      clean_data (Some d) kw =
        Inr (map as_int (if 7 \<le> length vals then drop (length vals - 7) vals else vals)) \<and>
      (nrows d = 10 \<longrightarrow> clean_data (Some d) kw = Inr (map as_int (drop 3 vals))) \<and>
      clean_data (Some (d\<lparr>columns := (''isPartial'', marks) # columns d\<rparr>)) kw =
        clean_data (Some d) kw) \<and>
   (\<not> df_empty d \<and> ''isPartial'' \<in> set (map fst (columns d)) \<longrightarrow>
      clean_data (Some d) ''isPartial'' = Inl (Exception (quoted ''isPartial''))) \<and>
   (\<not> df_empty d \<and> kw \<noteq> ''isPartial'' \<and>
    2 \<le> length (filter (\<lambda>(c, vs). c = kw) (columns d)) \<longrightarrow>
      clean_data (Some d) kw =
        Inl (Exception (quoted ''DataFrame'' @ '' object has no attribute '' @ quoted ''tolist''))) \<and>
   \<bar>of_int (trunc x)\<bar> \<le> \<bar>x\<bar> \<and> \<bar>x - of_int (trunc x)\<bar> < 1 \<and>
   trunc 2.7 = 2 \<and> trunc (- 2.7) = - 2"
proof -
  have a: "clean_data None kw = Inr []" by (simp add: clean_data_def)
  have b: "df_empty d \<longrightarrow> clean_data (Some d) kw = Inr []" by (simp add: clean_data_def)
  have c: "\<not> df_empty d \<and> well_formed d \<and> kw \<noteq> ''isPartial'' \<and>
    filter (\<lambda>(c, vs). c = kw) (columns d) = [(kw, vals)] \<and> list_all is_number vals \<longrightarrow>
      length vals = nrows d \<and>
      clean_data (Some d) kw =
        Inr (map as_int (if 7 \<le> length vals then drop (length vals - 7) vals else vals)) \<and>
      (nrows d = 10 \<longrightarrow> clean_data (Some d) kw = Inr (map as_int (drop 3 vals))) \<and>
      clean_data (Some (d\<lparr>columns := (''isPartial'', marks) # columns d\<rparr>)) kw =
        clean_data (Some d) kw"
  proof
    assume h: "\<not> df_empty d \<and> well_formed d \<and> kw \<noteq> ''isPartial'' \<and>
      filter (\<lambda>(c, vs). c = kw) (columns d) = [(kw, vals)] \<and> list_all is_number vals"
    let ?last = "if 7 \<le> length vals then drop (length vals - 7) vals else vals"
    have len: "length vals = nrows d" using h well_formed_column by blast
    have nums: "list_all is_number ?last"
      using h by (auto simp: list_all_iff dest: in_set_dropD)
    have main: "clean_data (Some d) kw = Inr (map as_int ?last)"
      using h clean_data_column [of d kw vals] int_each_numbers [OF nums] by simp
    have ten: "nrows d = 10 \<longrightarrow> clean_data (Some d) kw = Inr (map as_int (drop 3 vals))"
      using main len by simp
    let ?d' = "d\<lparr>columns := (''isPartial'', marks) # columns d\<rparr>"
    have "\<not> df_empty ?d'" using h by (simp add: df_empty_def)
    moreover have "filter (\<lambda>(c, vs). c = kw) (columns ?d') = [(kw, vals)]" using h by auto
    ultimately have "clean_data (Some ?d') kw = int_each ?last"
      using h clean_data_column [of ?d' kw vals] by simp
    then have same: "clean_data (Some ?d') kw = clean_data (Some d) kw"
      using h clean_data_column [of d kw vals] by simp
    show "length vals = nrows d \<and> clean_data (Some d) kw = Inr (map as_int ?last) \<and>
      (nrows d = 10 \<longrightarrow> clean_data (Some d) kw = Inr (map as_int (drop 3 vals))) \<and>
      clean_data (Some ?d') kw = clean_data (Some d) kw"
      using len main ten same by blast
  qed
  have m: "\<not> df_empty d \<and> ''isPartial'' \<in> set (map fst (columns d)) \<longrightarrow>
      clean_data (Some d) ''isPartial'' = Inl (Exception (quoted ''isPartial''))"
    using clean_data_marker by blast
  have s: "\<not> df_empty d \<and> kw \<noteq> ''isPartial'' \<and>
    2 \<le> length (filter (\<lambda>(c, vs). c = kw) (columns d)) \<longrightarrow>
      clean_data (Some d) kw =
        Inl (Exception (quoted ''DataFrame'' @ '' object has no attribute '' @ quoted ''tolist''))"
    using clean_data_several by blast
  have t1: "trunc 2.7 = 2" by (simp add: trunc_def)
  have t2: "trunc (- 2.7) = - 2" by (simp add: trunc_def)
  show ?thesis using a b c m s trunc_towards_zero [of x] t1 t2 by blast
qed

lemma ten_points_facts:
  "\<not> df_empty ten_points" "well_formed ten_points" "nrows ten_points = 10"
  "filter (\<lambda>(c, vs). c = ''coffee'') (columns ten_points) =
     [(''coffee'', [IntCell 11, IntCell 12, FloatCell 13.75, IntCell 14, IntCell 15,
           IntCell 16, IntCell 17, IntCell 18, IntCell 19, FloatCell (- 20.5)])]"
  "''isPartial'' \<in> set (map fst (columns ten_points))"
  by (simp_all add: ten_points_def df_empty_def well_formed_def)

lemma twice_coffee_facts:
  "\<not> df_empty twice_coffee" "2 \<le> length (filter (\<lambda>(c, vs). c = ''coffee'') (columns twice_coffee))"
  by (simp_all add: twice_coffee_def df_empty_def)

theorem clean_data_last_seven_witness:
  "\<not> df_empty ten_points \<and> df_empty \<lparr>nrows = 0, columns = [(''coffee'', [])]\<rparr> \<and>
   clean_data (Some \<lparr>nrows = 0, columns = [(''coffee'', [])]\<rparr>) ''coffee'' = Inr [] \<and>
   clean_data (Some ten_points) ''coffee'' = Inr [14, 15, 16, 17, 18, 19, - 20] \<and>
   clean_data (Some ten_points) ''isPartial'' = Inl (Exception (quoted ''isPartial'')) \<and>
   clean_data (Some twice_coffee) ''coffee'' =
     Inl (Exception (quoted ''DataFrame'' @ '' object has no attribute '' @ quoted ''tolist''))"
proof -
  let ?vals = "[IntCell 11, IntCell 12, FloatCell 13.75, IntCell 14, IntCell 15,
           IntCell 16, IntCell 17, IntCell 18, IntCell 19, FloatCell (- 20.5)]"
  have e: "df_empty \<lparr>nrows = 0, columns = [(''coffee'', [])]\<rparr>" by (simp add: df_empty_def)
  have n: "list_all is_number ?vals" by simp
  have k: "''coffee'' \<noteq> ''isPartial''" by simp
  have "clean_data (Some ten_points) ''coffee'' = Inr (map as_int (drop 3 ?vals))"
    using clean_data_last_seven [of "''coffee''" ten_points ?vals] ten_points_facts n k by blast
  then have a: "clean_data (Some ten_points) ''coffee'' = Inr [14, 15, 16, 17, 18, 19, - 20]"
    by (simp add: trunc_def)
  have b: "clean_data (Some \<lparr>nrows = 0, columns = [(''coffee'', [])]\<rparr>) ''coffee'' = Inr []"
    using clean_data_last_seven [of "''coffee''" "\<lparr>nrows = 0, columns = [(''coffee'', [])]\<rparr>"] e by blast
  have c: "clean_data (Some ten_points) ''isPartial'' = Inl (Exception (quoted ''isPartial''))"
    using clean_data_last_seven [of "''coffee''" ten_points] ten_points_facts by blast
  have d: "clean_data (Some twice_coffee) ''coffee'' =
     Inl (Exception (quoted ''DataFrame'' @ '' object has no attribute '' @ quoted ''tolist''))"
    using clean_data_last_seven [of "''coffee''" twice_coffee] twice_coffee_facts k by blast
  show ?thesis using a b c d e ten_points_facts(1) by blast
qed

subsection \<open>Fetching with retries\<close>

declare fetch_loop.simps [simp del]

lemma attempt_world:
  "emit (Query kw) (sleep 2 w) = w\<lparr>trace := trace w @ [Sleep 2, Query kw]\<rparr>"
  by (simp add: emit_def sleep_def)

lemma retry_world:
  "get_pytrend (sleep secs (w\<lparr>trace := trace w @ [Sleep 2, Query kw]\<rparr>)) =
     w\<lparr>pytrend := Suc (pytrend w), trace := trace w @ [Sleep 2, Query kw, Sleep secs, NewClient]\<rparr>"
  by (simp add: get_pytrend_def emit_def sleep_def)


lemma fetch_loop_returned:
  assumes "attempt < max_retries"
    and "interest_over_time P (trace w @ [Sleep 2, Query kw]) = Returned d"
  shows "fetch_loop P kw max_retries attempt w =
     (Inr (Some d), w\<lparr>trace := trace w @ [Sleep 2, Query kw]\<rparr>)"
  using assms by (subst fetch_loop.simps) (simp add: Let_def attempt_world)

lemma fetch_loop_retry:
  assumes "attempt < max_retries - 1"
    and "interest_over_time P (trace w @ [Sleep 2, Query kw]) = Raised msg"
    and "contains msg ''429''"
  shows "fetch_loop P kw max_retries attempt w =
     fetch_loop P kw max_retries (attempt + 1)
       (w\<lparr>pytrend := Suc (pytrend w),
          trace := trace w @ [Sleep 2, Query kw, Sleep ((attempt + 1) * 10), NewClient]\<rparr>)"
  using assms by (subst fetch_loop.simps) (simp add: Let_def attempt_world retry_world)

lemma fetch_loop_raised:
  assumes "attempt < max_retries"
    and "interest_over_time P (trace w @ [Sleep 2, Query kw]) = Raised msg"
    and "\<not> contains msg ''429'' \<or> attempt = max_retries - 1"
  shows "fetch_loop P kw max_retries attempt w =
     (Inl (Exception msg), w\<lparr>trace := trace w @ [Sleep 2, Query kw]\<rparr>)"
  using assms by (subst fetch_loop.simps) (auto simp add: Let_def attempt_world)

lemma fetch_loop_retries:
  assumes "attempt + int n < max_retries"
    and "\<forall>i<n. \<exists>msg. interest_over_time P (trace w @ retry_events kw attempt i @ [Sleep 2, Query kw])
                        = Raised msg \<and> contains msg ''429''"
  shows "fetch_loop P kw max_retries attempt w =
     fetch_loop P kw max_retries (attempt + int n)
       (w\<lparr>pytrend := pytrend w + n, trace := trace w @ retry_events kw attempt n\<rparr>)"
  using assms
proof (induction n arbitrary: attempt w)
  case 0
  then show ?case by simp
next
  case (Suc n)
  let ?w' = "w\<lparr>pytrend := Suc (pytrend w),
          trace := trace w @ [Sleep 2, Query kw, Sleep ((attempt + 1) * 10), NewClient]\<rparr>"
  from Suc.prems(2) have "\<exists>msg. interest_over_time P (trace w @ retry_events kw attempt 0 @ [Sleep 2, Query kw])
                        = Raised msg \<and> contains msg ''429''" by blast
  then obtain msg where m: "interest_over_time P (trace w @ [Sleep 2, Query kw]) = Raised msg"
    "contains msg ''429''" by auto
  have step: "fetch_loop P kw max_retries attempt w = fetch_loop P kw max_retries (attempt + 1) ?w'"
    using Suc.prems(1) m by (intro fetch_loop_retry) simp_all
  have rest: "\<forall>i<n. \<exists>msg. interest_over_time P (trace ?w' @ retry_events kw (attempt + 1) i @ [Sleep 2, Query kw])
                        = Raised msg \<and> contains msg ''429''"
  proof (intro allI impI)
    fix i assume "i < n"
    then have "Suc i < Suc n" by simp
    with Suc.prems(2) have "\<exists>msg. interest_over_time P
        (trace w @ retry_events kw attempt (Suc i) @ [Sleep 2, Query kw]) = Raised msg \<and>
        contains msg ''429''" by blast
    then show "\<exists>msg. interest_over_time P
        (trace ?w' @ retry_events kw (attempt + 1) i @ [Sleep 2, Query kw]) = Raised msg \<and>
        contains msg ''429''" by simp
  qed
  have "fetch_loop P kw max_retries (attempt + 1) ?w' =
     fetch_loop P kw max_retries (attempt + 1 + int n)
       (?w'\<lparr>pytrend := pytrend ?w' + n, trace := trace ?w' @ retry_events kw (attempt + 1) n\<rparr>)"
    using Suc.prems(1) rest by (intro Suc.IH) simp_all
  then show ?case using step by (simp add: add.commute add.left_commute)
qed

lemma count_queries_append: "count_queries (xs @ ys) = count_queries xs + count_queries ys"
  by (simp add: count_queries_def)

lemma count_queries_retry_events: "count_queries (retry_events kw a n) = n"
  by (induction n arbitrary: a) (simp_all add: count_queries_def)

lemma fetch_after_retries_returned:
  assumes "int n < max_retries"
    and "\<forall>i<n. \<exists>msg. interest_over_time P (trace w @ retry_events kw 0 i @ [Sleep 2, Query kw])
                        = Raised msg \<and> contains msg ''429''"
    and "interest_over_time P (trace w @ retry_events kw 0 n @ [Sleep 2, Query kw]) = Returned d"
  shows "fetch_trends_data P kw max_retries w =
     (Inr (Some d), w\<lparr>pytrend := pytrend w + n,
                      trace := trace w @ retry_events kw 0 n @ [Sleep 2, Query kw]\<rparr>)"
proof -
  let ?w = "w\<lparr>pytrend := pytrend w + n, trace := trace w @ retry_events kw 0 n\<rparr>"
  have "fetch_loop P kw max_retries 0 w = fetch_loop P kw max_retries (0 + int n) ?w"
    using assms(1,2) by (intro fetch_loop_retries) simp_all
  moreover have "fetch_loop P kw max_retries (int n) ?w =
      (Inr (Some d), ?w\<lparr>trace := trace ?w @ [Sleep 2, Query kw]\<rparr>)"
    using assms(1,3) by (intro fetch_loop_returned) simp_all
  ultimately show ?thesis by (simp add: fetch_trends_data_def)
qed

lemma fetch_after_retries_raised:
  assumes "int n < max_retries"
    and "\<forall>i<n. \<exists>msg. interest_over_time P (trace w @ retry_events kw 0 i @ [Sleep 2, Query kw])
                        = Raised msg \<and> contains msg ''429''"
    and "interest_over_time P (trace w @ retry_events kw 0 n @ [Sleep 2, Query kw]) = Raised msg"
    and "\<not> contains msg ''429'' \<or> int n = max_retries - 1"
  shows "fetch_trends_data P kw max_retries w =
     (Inl (Exception msg), w\<lparr>pytrend := pytrend w + n,
                      trace := trace w @ retry_events kw 0 n @ [Sleep 2, Query kw]\<rparr>)"
proof -
  let ?w = "w\<lparr>pytrend := pytrend w + n, trace := trace w @ retry_events kw 0 n\<rparr>"
  have "fetch_loop P kw max_retries 0 w = fetch_loop P kw max_retries (0 + int n) ?w"
    using assms(1,2) by (intro fetch_loop_retries) simp_all
  moreover have "fetch_loop P kw max_retries (int n) ?w =
      (Inl (Exception msg), ?w\<lparr>trace := trace ?w @ [Sleep 2, Query kw]\<rparr>)"
    using assms(1,3,4) by (intro fetch_loop_raised) simp_all
  ultimately show ?thesis by (simp add: fetch_trends_data_def)
qed

lemma retry_events_two:
  "retry_events kw 0 2 =
     [Sleep 2, Query kw, Sleep 10, NewClient, Sleep 2, Query kw, Sleep 20, NewClient]"
  by (simp add: numeral_2_eq_2)

text \<open>
  C4. Every attempt of \<open>fetch_trends_data\<close> is a pause of 2 followed by the query. After
  \<open>n\<close> attempts that failed with a rate-limit error while attempts remained, each followed
  by a wait of \<open>(attempt + 1) * 10\<close> and a new client, an answer is returned as it is; a
  failure that is no rate-limit error, or one at the last attempt, is raised to the caller.
  With three attempts allowed, two rate-limited attempts and a third that succeeds make
  three queries, with waits of 10 and 20 between them.
\<close>

theorem fetch_trends_data_backoff:
  "(int n < max_retries \<and>
    (\<forall>i<n. \<exists>msg. interest_over_time P (trace w @ retry_events kw 0 i @ [Sleep 2, Query kw])
                        = Raised msg \<and> contains msg ''429'') \<longrightarrow>
      (interest_over_time P (trace w @ retry_events kw 0 n @ [Sleep 2, Query kw]) = Returned d \<longrightarrow>
         fetch_trends_data P kw max_retries w =
           (Inr (Some d), w\<lparr>pytrend := pytrend w + n,
                            trace := trace w @ retry_events kw 0 n @ [Sleep 2, Query kw]\<rparr>)) \<and>
      (interest_over_time P (trace w @ retry_events kw 0 n @ [Sleep 2, Query kw]) = Raised msg \<and>
       (\<not> contains msg ''429'' \<or> int n = max_retries - 1) \<longrightarrow>
         fetch_trends_data P kw max_retries w =
           (Inl (Exception msg), w\<lparr>pytrend := pytrend w + n,
                            trace := trace w @ retry_events kw 0 n @ [Sleep 2, Query kw]\<rparr>))) \<and>
   count_queries (retry_events kw 0 n @ [Sleep 2, Query kw]) = n + 1 \<and>
   retry_events kw 0 2 @ [Sleep 2, Query kw] =
     [Sleep 2, Query kw, Sleep 10, NewClient, Sleep 2, Query kw, Sleep 20, NewClient,
      Sleep 2, Query kw]"
  using fetch_after_retries_returned [of n max_retries P w kw d]
    fetch_after_retries_raised [of n max_retries P w kw msg]
  by (simp add: count_queries_append count_queries_retry_events retry_events_two)
     (simp add: count_queries_def)

lemma third_time_lucky_answers:
  "interest_over_time third_time_lucky [Sleep 2, Query kw] = Raised rate_limit_text"
  "interest_over_time third_time_lucky
     [Sleep 2, Query kw, Sleep 10, NewClient, Sleep 2, Query kw] = Raised rate_limit_text"
  "interest_over_time third_time_lucky
     [Sleep 2, Query kw, Sleep 10, NewClient, Sleep 2, Query kw, Sleep 20, NewClient,
      Sleep 2, Query kw] = Returned rising_table"
  by (simp_all add: third_time_lucky_def count_queries_def)

lemma rate_limit_text_429: "contains rate_limit_text ''429''"
  by (simp add: rate_limit_text_def)

theorem fetch_trends_data_backoff_witness:
  "fetch_trends_data third_time_lucky ''coffee'' 3 fresh_world =
     (Inr (Some rising_table),
      \<lparr>cache = Map.empty, pytrend = 2,
       trace = [Sleep 2, Query ''coffee'', Sleep 10, NewClient,
                Sleep 2, Query ''coffee'', Sleep 20, NewClient,
                Sleep 2, Query ''coffee'']\<rparr>) \<and>
   count_queries [Sleep 2, Query ''coffee'', Sleep 10, NewClient,
                Sleep 2, Query ''coffee'', Sleep 20, NewClient,
                Sleep 2, Query ''coffee''] = 3"
proof -
  have fails: "\<forall>i<2. \<exists>msg. interest_over_time third_time_lucky
      (trace fresh_world @ retry_events ''coffee'' 0 i @ [Sleep 2, Query ''coffee'']) = Raised msg \<and>
      contains msg ''429''"
    using third_time_lucky_answers rate_limit_text_429
    by (simp add: numeral_2_eq_2 less_Suc_eq fresh_world_def)
  have ok: "interest_over_time third_time_lucky
      (trace fresh_world @ retry_events ''coffee'' 0 2 @ [Sleep 2, Query ''coffee'']) =
      Returned rising_table"
    using third_time_lucky_answers by (simp add: retry_events_two fresh_world_def)
  show ?thesis
    using fetch_trends_data_backoff [of 2 3 third_time_lucky fresh_world "''coffee''" rising_table]
      fails ok
    by (simp add: fresh_world_def retry_events_two)
qed

subsection \<open>The endpoint\<close>














































end
